theory Spec2Isabelle
  imports Complex_Main
begin

section \<open>Python values, errors and dictionaries\<close>

text \<open>
  The command \<open>A2PCreateTechBook\<close> of \<open>a2p_techbook.py\<close> is glue over a host
  application: documents, spreadsheets, drawing pages, dialogs and a PDF merger. The
  functions of the class are embedded one by one. Every exception of the source is a
  value of \<open>error\<close>; every call that acts on the host appends an \<open>event\<close> to the
  trace of the \<open>world\<close>. What the host answers (which files open, what a dialog
  returns, how a date string parses) is a field of the record \<open>host\<close>: the theorems
  hold for every host.

  A value the program handles is an \<open>int\<close> or a string: these are the contents of a
  spreadsheet cell as the program uses them (a number for a page count, a text for
  everything else). Writing a file always succeeds.
\<close>

datatype pyval = PInt int | PStr string

datatype error =
  OSError | ValueError | TypeError | KeyError | IndexError | RecursionError
  | OtherError string

text \<open>
  A Python \<open>dict\<close>: an association list in insertion order with one entry per key.
  \<open>d[k] = v\<close> replaces the value of an existing key in place and appends a new key.
\<close>

type_synonym ('k, 'v) dict = "('k \<times> 'v) list"

fun dict_set :: "('k, 'v) dict \<Rightarrow> 'k \<Rightarrow> 'v \<Rightarrow> ('k, 'v) dict" where
  "dict_set [] k v = [(k, v)]"
| "dict_set ((k', v') # d) k v =
     (if k' = k then (k', v) # d else (k', v') # dict_set d k v)"

definition dict_get :: "('k, 'v) dict \<Rightarrow> 'k \<Rightarrow> 'v option" where
  "dict_get d k = map_of d k"

definition dict_in :: "'k \<Rightarrow> ('k, 'v) dict \<Rightarrow> bool" where
  "dict_in k d = (dict_get d k \<noteq> None)"

text \<open>\<open>str\<close> of a Python \<open>int\<close>: decimal digits, a minus sign when negative.\<close>

definition digit_char :: "nat \<Rightarrow> char" where
  "digit_char d = ''0123456789'' ! (d mod 10)"

fun str_nat :: "nat \<Rightarrow> string" where
  "str_nat n = (if n < 10 then [digit_char n] else str_nat (n div 10) @ [digit_char (n mod 10)])"

declare str_nat.simps [simp del]

definition str_int :: "int \<Rightarrow> string" where
  "str_int i = (if i < 0 then CHR ''-'' # str_nat (nat (- i)) else str_nat (nat i))"

text \<open>\<open>s.endswith(suf)\<close>.\<close>

definition endswith :: "string \<Rightarrow> string \<Rightarrow> bool" where
  "endswith s suf = (length suf \<le> length s \<and> drop (length s - length suf) s = suf)"

section \<open>The host application\<close>

type_synonym doc = nat
type_synonym page = nat

text \<open>
  A spreadsheet: its rows from row 1 on, each with the content of its cells in the
  columns A and B (\<open>None\<close>: the cell is empty). \<open>sheet.get\<close> raises \<open>ValueError\<close> on
  an empty cell.
\<close>

type_synonym sheet = "(pyval option \<times> pyval option) list"

datatype column = ColA | ColB

definition sheet_get :: "sheet \<Rightarrow> column \<Rightarrow> nat \<Rightarrow> error + pyval" where
  "sheet_get sh c idx =
     (if idx = 0 \<or> length sh < idx then Inl ValueError
      else case (case c of ColA \<Rightarrow> fst (sh ! (idx - 1)) | ColB \<Rightarrow> snd (sh ! (idx - 1))) of
             None \<Rightarrow> Inl ValueError
           | Some v \<Rightarrow> Inr v)"

record document =
  FileName :: string
  LastModifiedDate :: string
  findSheets :: "string \<Rightarrow> sheet list"
  findDrawPages :: "page list"

record a2pobject =
  getA2pSource :: string
  isSubassembly :: bool

record datetime =
  year :: nat
  month :: nat
  day :: nat

record drawpage =
  EditableTexts :: "(string \<times> string) list"
  Scale :: real
  Visibility :: bool

text \<open>A PDF file: its pages, each the drawing page it renders and that page's texts.\<close>

type_synonym pdf = "(page \<times> (string \<times> string) list) list"

datatype event =
  E_Question string
  | E_FileDialog string
  | E_Information string string
  | E_FindSheets doc string
  | E_SheetGet column nat
  | E_OpenDocument string
  | E_Print string
  | E_ReadA2p string
  | E_SetEditableTexts page "(string \<times> string) list"
  | E_Recompute page
  | E_DoubleClicked page
  | E_ExportPageAsPdf page string
  | E_MergerAppend string
  | E_WriteFile string

record host =
  activeDocument :: "doc option"
  documents :: "doc \<Rightarrow> document"
  openDocument :: "string \<Rightarrow> error + doc"
  getA2pObjects :: "string \<Rightarrow> error + a2pobject list"
  findSourceFileInProject :: "string \<Rightarrow> string \<Rightarrow> string option"
  path_join :: "string \<Rightarrow> string \<Rightarrow> string"
  os_path_split :: "string \<Rightarrow> string \<times> string"
  fromisoformat :: "string \<Rightarrow> error + datetime"
  str_float :: "real \<Rightarrow> string"
  int_of_str :: "string \<Rightarrow> int option"
  getTempFileName :: "doc \<Rightarrow> string \<Rightarrow> string"
  question_answer :: bool
  dialog_result :: "string list option"

record world =
  w_pages :: "page \<Rightarrow> drawpage"
  w_files :: "string \<Rightarrow> pdf option"
  w_trace :: "event list"

definition emit :: "world \<Rightarrow> event list \<Rightarrow> world" where
  "emit w evs = w\<lparr>w_trace := w_trace w @ evs\<rparr>"

section \<open>\<open>_getUserParameters\<close>\<close>

text \<open>
  The question about recursion, then the save dialog. \<open>dialog_result\<close> is \<open>None\<close>
  when the dialog is cancelled and the list \<open>selectedFiles()\<close> otherwise. The result is
  the pair \<open>(assembly_recursion, filename)\<close>, the file name \<open>None\<close> after a cancel.
\<close>

definition getUserParameters ::
  "host \<Rightarrow> string \<Rightarrow> world \<Rightarrow> error + ((bool \<times> string option) \<times> world)" where
  "getUserParameters h working_dir w =
     (let w1 = emit w [E_Question ''Do you want to iterate recursively over all included subassemblies?''];
          assembly_recursion = question_answer h;
          w2 = emit w1 [E_FileDialog working_dir]
      in case dialog_result h of
           Some selectedFiles \<Rightarrow>
             (case selectedFiles of
                [] \<Rightarrow> Inl IndexError
              | filename # _ \<Rightarrow>
                  Inr ((assembly_recursion,
                        Some (if \<not> endswith filename ''.pdf'' then filename @ ''.pdf'' else filename)),
                       w2))
         | None \<Rightarrow>
             Inr ((assembly_recursion, None),
                  emit w2 [E_Information ''Technical book generation aborted!''
                                          ''You have to give a file to save the book.'']))"

section \<open>\<open>_getBookParameters\<close>\<close>

definition STANDARDS_FIELDS_NAME :: "pyval list" where
  "STANDARDS_FIELDS_NAME =
     [PStr ''Stating_Page'', PStr ''Nb_Page_After'', PStr ''Date_Field'',
      PStr ''Scale_Field'', PStr ''Sheet_Field'']"

definition INFO_SPREADSHEET_LABEL :: string where
  "INFO_SPREADSHEET_LABEL = ''#TECHINFO#''"

text \<open>
  \<open>int(v)\<close>: an \<open>int\<close> is itself; a string is parsed by the host's \<open>int\<close>, which
  raises \<open>ValueError\<close> on a string that is no integer literal.
\<close>

definition py_int :: "host \<Rightarrow> pyval \<Rightarrow> error + int" where
  "py_int h v =
     (case v of
        PInt i \<Rightarrow> Inr i
      | PStr s \<Rightarrow> (case int_of_str h s of None \<Rightarrow> Inl ValueError | Some i \<Rightarrow> Inr i))"

text \<open>
  The \<open>while run\<close> loop: row \<open>idx\<close> is read, cell A then cell B, and stored in
  \<open>temp_dict\<close>; the first \<open>ValueError\<close> ends the loop, and any other exception
  leaves the function.
\<close>

function read_sheet ::
  "sheet \<Rightarrow> nat \<Rightarrow> (pyval, pyval) dict \<Rightarrow> world \<Rightarrow> error + ((pyval, pyval) dict \<times> world)" where
  "read_sheet sh idx temp_dict w =
     (case sheet_get sh ColA idx of
        Inl e \<Rightarrow>
          (if e = ValueError then Inr (temp_dict, emit w [E_SheetGet ColA idx]) else Inl e)
      | Inr key \<Rightarrow>
          (case sheet_get sh ColB idx of
             Inl e \<Rightarrow>
               (if e = ValueError
                then Inr (temp_dict, emit w [E_SheetGet ColA idx, E_SheetGet ColB idx])
                else Inl e)
           | Inr val \<Rightarrow>
               read_sheet sh (idx + 1) (dict_set temp_dict key val)
                 (emit w [E_SheetGet ColA idx, E_SheetGet ColB idx])))"
  by pat_completeness auto
termination
  by (relation "measure (\<lambda>(sh, idx, temp_dict, w). Suc (length sh) - idx)")
     (auto simp: sheet_get_def split: if_splits)

declare read_sheet.simps [simp del]

text \<open>The loop \<open>for k, v in temp_dict.items()\<close> that fills the two dictionaries.\<close>

fun set_ret_val ::
  "host \<Rightarrow> (pyval, pyval) dict \<Rightarrow> (pyval, pyval) dict \<Rightarrow> (pyval, pyval) dict \<Rightarrow>
   error + ((pyval, pyval) dict \<times> (pyval, pyval) dict)" where
  "set_ret_val h [] standard_fields editable_fields = Inr (standard_fields, editable_fields)"
| "set_ret_val h ((k, v) # items) standard_fields editable_fields =
     (if k \<in> set STANDARDS_FIELDS_NAME then
        (if k = PStr ''Stating_Page'' \<or> k = PStr ''Nb_Page_After'' then
           (case py_int h v of
              Inr i \<Rightarrow> set_ret_val h items (dict_set standard_fields k (PInt i)) editable_fields
            | Inl e \<Rightarrow>
                (if e = ValueError then
                   (case dict_get standard_fields k of
                      None \<Rightarrow> Inl KeyError
                    | Some d \<Rightarrow> set_ret_val h items (dict_set standard_fields k d) editable_fields)
                 else Inl e))
         else set_ret_val h items (dict_set standard_fields k v) editable_fields)
      else set_ret_val h items standard_fields (dict_set editable_fields k v))"

definition default_standard_fields :: "(pyval, pyval) dict" where
  "default_standard_fields =
     dict_set (dict_set (dict_set (dict_set (dict_set []
       (PStr ''Stating_Page'') (PInt 1))
       (PStr ''Nb_Page_After'') (PInt 0))
       (PStr ''Date_Field'') (PStr ''FC-DATE''))
       (PStr ''Scale_Field'') (PStr ''FC-SC''))
       (PStr ''Sheet_Field'') (PStr ''FC-SH'')"

text \<open>
  The two dictionaries are parameters the source mutates: they come in with any
  content, are cleared, and are returned.
\<close>

definition getBookParameters ::
  "host \<Rightarrow> doc \<Rightarrow> (pyval, pyval) dict \<Rightarrow> (pyval, pyval) dict \<Rightarrow> world \<Rightarrow>
   error + (((pyval, pyval) dict \<times> (pyval, pyval) dict) \<times> world)" where
  "getBookParameters h doc standard_fields0 editable_fields0 w =
     (let standard_fields = default_standard_fields;
          editable_fields = [];
          w1 = emit w [E_FindSheets doc INFO_SPREADSHEET_LABEL]
      in case findSheets (documents h doc) INFO_SPREADSHEET_LABEL of
           [] \<Rightarrow> Inr ((standard_fields, editable_fields), w1)
         | sheet0 # _ \<Rightarrow>
             (case read_sheet sheet0 1 [] w1 of
                Inl e \<Rightarrow> Inl e
              | Inr (temp_dict, w2) \<Rightarrow>
                  (case set_ret_val h temp_dict standard_fields editable_fields of
                     Inl e \<Rightarrow> Inl e
                   | Inr dicts \<Rightarrow> Inr (dicts, w2))))"

section \<open>\<open>_getDocumentTechDraw\<close> and \<open>_createTechDrawDocumentList\<close>\<close>

text \<open>
  \<open>treated\<close> is the list the source appends to; it is returned with the pages. An
  \<open>OSError\<close> of \<open>FreeCAD.openDocument\<close> is caught and reported with \<open>print\<close>.
\<close>

definition getDocumentTechDraw ::
  "host \<Rightarrow> string \<Rightarrow> doc list \<Rightarrow> world \<Rightarrow> error + ((doc \<times> page) list \<times> doc list \<times> world)" where
  "getDocumentTechDraw h full_filename treated w =
     (case openDocument h full_filename of
        Inl e \<Rightarrow>
          (if e = OSError
           then Inr ([], treated,
                     emit w [E_OpenDocument full_filename,
                             E_Print (''File '' @ full_filename @ '' could not be opened !'')])
           else Inl e)
      | Inr doc \<Rightarrow>
          (let w1 = emit w [E_OpenDocument full_filename] in
           if doc \<in> set treated then Inr ([], treated, w1)
           else (let treated1 = treated @ [doc];
                     td = findDrawPages (documents h doc)
                 in if td \<noteq> [] then Inr (map (\<lambda>i. (doc, i)) td, treated1, w1)
                    else Inr ([], treated1, w1))))"

text \<open>A \<open>for\<close> loop whose body may raise: the first exception ends it.\<close>

fun for_loop :: "('a \<Rightarrow> 's \<Rightarrow> error + 's) \<Rightarrow> 'a list \<Rightarrow> 's \<Rightarrow> error + 's" where
  "for_loop body [] s = Inr s"
| "for_loop body (x # xs) s =
     (case body x s of Inl e \<Rightarrow> Inl e | Inr s' \<Rightarrow> for_loop body xs s')"

text \<open>
  The body of \<open>for ob in reader.getA2pObjects()\<close>, with the recursive call as the
  parameter \<open>recurse\<close>. \<open>findSourceFileInProject\<close> returns \<open>None\<close> for a source it
  does not find, and \<open>os.path.split(None)\<close> raises \<open>TypeError\<close>.
\<close>

definition walk_body ::
  "(string \<Rightarrow> string \<Rightarrow> bool \<Rightarrow> doc list \<Rightarrow> world \<Rightarrow> error + ((doc \<times> page) list \<times> doc list \<times> world)) \<Rightarrow>
   host \<Rightarrow> string \<Rightarrow> bool \<Rightarrow> a2pobject \<Rightarrow>
   ((doc \<times> page) list \<times> doc list \<times> world) \<Rightarrow> error + ((doc \<times> page) list \<times> doc list \<times> world)" where
  "walk_body recurse h file_path recursive ob st =
     (case st of (ret_val, treated, w) \<Rightarrow>
        (case findSourceFileInProject h (getA2pSource ob) file_path of
           None \<Rightarrow> Inl TypeError
         | Some new_full_file \<Rightarrow>
             (case os_path_split h new_full_file of (new_full_path, new_file_name) \<Rightarrow>
                (case (if recursive \<and> isSubassembly ob
                       then recurse new_file_name new_full_path recursive treated w
                       else getDocumentTechDraw h new_full_file treated w) of
                   Inl e \<Rightarrow> Inl e
                 | Inr (pages, treated', w') \<Rightarrow> Inr (ret_val @ pages, treated', w')))))"

text \<open>
  The first argument bounds the depth of the recursion, as the interpreter's recursion
  limit does: a walk that needs more raises \<open>RecursionError\<close>.
\<close>

primrec createTechDrawDocumentList ::
  "nat \<Rightarrow> host \<Rightarrow> string \<Rightarrow> string \<Rightarrow> bool \<Rightarrow> doc list \<Rightarrow> world \<Rightarrow>
   error + ((doc \<times> page) list \<times> doc list \<times> world)" where
  "createTechDrawDocumentList 0 h file_name file_path recursive treated w = Inl RecursionError"
| "createTechDrawDocumentList (Suc depth) h file_name file_path recursive treated w =
     (let full_filename = path_join h file_path file_name in
      case getDocumentTechDraw h full_filename treated w of
        Inl e \<Rightarrow> Inl e
      | Inr (ret_val, treated1, w1) \<Rightarrow>
          (case getA2pObjects h full_filename of
             Inl e \<Rightarrow> Inl e
           | Inr objects \<Rightarrow>
               for_loop (walk_body (createTechDrawDocumentList depth h) h file_path recursive)
                 objects (ret_val, treated1, emit w1 [E_ReadA2p full_filename])))"

section \<open>\<open>_computeEditableFields\<close> and \<open>_computeTechDraw\<close>\<close>

text \<open>
  \<open>strftime("%d/%m/%Y")\<close>: day and month in two digits, the year in four (the
  documented form; a date a document can carry has a four-digit year).
\<close>

definition zero_pad :: "nat \<Rightarrow> string \<Rightarrow> string" where
  "zero_pad n s = replicate (n - length s) (CHR ''0'') @ s"

definition strftime_dmY :: "datetime \<Rightarrow> string" where
  "strftime_dmY t =
     zero_pad 2 (str_nat (day t)) @ ''/'' @ zero_pad 2 (str_nat (month t)) @ ''/'' @
     zero_pad 4 (str_nat (year t))"

text \<open>
  The property \<open>EditableTexts\<close> maps strings to strings. Reading it gives a fresh
  dictionary; assigning a dictionary with a key or a value that is no string raises
  \<open>TypeError\<close>.
\<close>

definition get_EditableTexts :: "drawpage \<Rightarrow> (pyval, pyval) dict" where
  "get_EditableTexts pg = map (\<lambda>(k, v). (PStr k, PStr v)) (EditableTexts pg)"

fun to_property_map :: "(pyval, pyval) dict \<Rightarrow> error + (string \<times> string) list" where
  "to_property_map [] = Inr []"
| "to_property_map ((PStr k, PStr v) # d) =
     (case to_property_map d of Inl e \<Rightarrow> Inl e | Inr m \<Rightarrow> Inr ((k, v) # m))"
| "to_property_map (_ # d) = Inl TypeError"

text \<open>The loop \<open>for k, v in templates_data.items(): if k in texts: texts[k] = v\<close>.\<close>

fun apply_templates_data :: "(pyval, pyval) dict \<Rightarrow> (pyval, pyval) dict \<Rightarrow> (pyval, pyval) dict" where
  "apply_templates_data [] texts = texts"
| "apply_templates_data ((k, v) # items) texts =
     apply_templates_data items (if dict_in k texts then dict_set texts k v else texts)"

definition computeEditableFields ::
  "host \<Rightarrow> doc \<Rightarrow> page \<Rightarrow> (pyval, pyval) dict \<Rightarrow> pyval \<Rightarrow> pyval \<Rightarrow> world \<Rightarrow> error + world" where
  "computeEditableFields h doc page templates_data date_field scale_field w =
     (let texts = get_EditableTexts (w_pages w page);
          lmd = LastModifiedDate (documents h doc)
      in if lmd = [] then Inl IndexError
         else
           (case (if last lmd = CHR ''Z'' then fromisoformat h (butlast lmd)
                  else fromisoformat h lmd) of
              Inl e \<Rightarrow> Inl e
            | Inr modified \<Rightarrow>
                (let texts1 = dict_set texts date_field (PStr (strftime_dmY modified));
                     texts2 = dict_set texts1 scale_field
                                (PStr (str_float h (Scale (w_pages w page))));
                     texts3 = apply_templates_data templates_data texts2
                 in case to_property_map texts3 of
                      Inl e \<Rightarrow> Inl e
                    | Inr m \<Rightarrow>
                        Inr (emit
                              (w\<lparr>w_pages := (w_pages w)(page := (w_pages w page)\<lparr>EditableTexts := m\<rparr>)\<rparr>)
                              [E_SetEditableTexts page m, E_Recompute page]))))"

text \<open>
  The body of \<open>for doc, page in doc_list\<close>; the loop carries \<open>templates_data\<close> and
  \<open>page_edited\<close> along with the world.
\<close>

definition computeTechDraw_body ::
  "host \<Rightarrow> int \<Rightarrow> pyval \<Rightarrow> pyval \<Rightarrow> pyval \<Rightarrow> (doc \<times> page) \<Rightarrow>
   ((pyval, pyval) dict \<times> int \<times> world) \<Rightarrow> error + ((pyval, pyval) dict \<times> int \<times> world)" where
  "computeTechDraw_body h nb_page date_field scale_field sheet_field dp st =
     (case dp of (doc, page) \<Rightarrow>
      case st of (templates_data, page_edited, w) \<Rightarrow>
        (let templates_data1 =
               dict_set templates_data sheet_field
                 (PStr (str_int page_edited @ '' / '' @ str_int nb_page))
         in case computeEditableFields h doc page templates_data1 date_field scale_field w of
              Inl e \<Rightarrow> Inl e
            | Inr w' \<Rightarrow> Inr (templates_data1, page_edited + 1, w')))"

text \<open>
  \<open>standard_fields[k]\<close> raises \<open>KeyError\<close> on a missing key, and the sum of the page
  count raises \<open>TypeError\<close> when \<open>Stating_Page\<close> or \<open>Nb_Page_After\<close> is a string.
\<close>

definition computeTechDraw ::
  "host \<Rightarrow> (doc \<times> page) list \<Rightarrow> (pyval, pyval) dict \<Rightarrow> (pyval, pyval) dict \<Rightarrow> world \<Rightarrow> error + world" where
  "computeTechDraw h doc_list standard_fields editable_fields w =
     (case dict_get standard_fields (PStr ''Stating_Page'') of
        None \<Rightarrow> Inl KeyError
      | Some (PStr s) \<Rightarrow> Inl TypeError
      | Some (PInt stating_page) \<Rightarrow>
     (case dict_get standard_fields (PStr ''Nb_Page_After'') of
        None \<Rightarrow> Inl KeyError
      | Some (PStr s) \<Rightarrow> Inl TypeError
      | Some (PInt nb_page_after) \<Rightarrow>
     (let nb_page = stating_page + int (length doc_list) + nb_page_after - 1 in
      case dict_get standard_fields (PStr ''Date_Field'') of
        None \<Rightarrow> Inl KeyError
      | Some date_field \<Rightarrow>
     (case dict_get standard_fields (PStr ''Scale_Field'') of
        None \<Rightarrow> Inl KeyError
      | Some scale_field \<Rightarrow>
     (case dict_get standard_fields (PStr ''Sheet_Field'') of
        None \<Rightarrow> Inl KeyError
      | Some sheet_field \<Rightarrow>
     (case for_loop (computeTechDraw_body h nb_page date_field scale_field sheet_field)
             doc_list (editable_fields, stating_page, w) of
        Inl e \<Rightarrow> Inl e
      | Inr (templates_data, page_edited, w') \<Rightarrow> Inr w'))))))"

section \<open>\<open>_createPDFFile\<close>\<close>

text \<open>
  \<open>doubleClicked\<close> shows the page. \<open>exportPageAsPdf\<close> writes a one-page file that
  renders the page as it is at that moment. \<open>PdfFileMerger.append\<close> reads the file it
  is given (\<open>OSError\<close> when there is none) and keeps its pages.
\<close>

definition doubleClicked :: "page \<Rightarrow> world \<Rightarrow> world" where
  "doubleClicked page w =
     emit (w\<lparr>w_pages := (w_pages w)(page := (w_pages w page)\<lparr>Visibility := True\<rparr>)\<rparr>)
       [E_DoubleClicked page]"

definition exportPageAsPdf :: "page \<Rightarrow> string \<Rightarrow> world \<Rightarrow> world" where
  "exportPageAsPdf page pdf_file w =
     emit (w\<lparr>w_files := (w_files w)(pdf_file \<mapsto> [(page, EditableTexts (w_pages w page))])\<rparr>)
       [E_ExportPageAsPdf page pdf_file]"

definition merger_append :: "pdf \<Rightarrow> string \<Rightarrow> world \<Rightarrow> error + (pdf \<times> world)" where
  "merger_append pdf_merger pdf_file w =
     (case w_files w pdf_file of
        None \<Rightarrow> Inl OSError
      | Some content \<Rightarrow> Inr (pdf_merger @ content, emit w [E_MergerAppend pdf_file]))"

definition createPDFFile_body ::
  "host \<Rightarrow> doc \<Rightarrow> (doc \<times> page) \<Rightarrow> (int \<times> pdf \<times> world) \<Rightarrow> error + (int \<times> pdf \<times> world)" where
  "createPDFFile_body h base_doc dp st =
     (case dp of (doc, page) \<Rightarrow>
      case st of (nb, pdf_merger, w) \<Rightarrow>
        (let pdf_file = getTempFileName h base_doc (''Page'' @ str_int nb) @ ''.pdf'';
             w1 = (if \<not> Visibility (w_pages w page) then doubleClicked page w else w);
             w2 = exportPageAsPdf page pdf_file w1
         in case merger_append pdf_merger pdf_file w2 of
              Inl e \<Rightarrow> Inl e
            | Inr (pdf_merger', w3) \<Rightarrow> Inr (nb + 1, pdf_merger', w3)))"

definition createPDFFile :: "host \<Rightarrow> doc \<Rightarrow> (doc \<times> page) list \<Rightarrow> string \<Rightarrow> world \<Rightarrow> error + world" where
  "createPDFFile h base_doc doc_list filename w =
     (case for_loop (createPDFFile_body h base_doc) doc_list (1, [], w) of
        Inl e \<Rightarrow> Inl e
      | Inr (nb, pdf_merger, w') \<Rightarrow>
          Inr (emit (w'\<lparr>w_files := (w_files w')(filename \<mapsto> pdf_merger)\<rparr>) [E_WriteFile filename]))"

section \<open>\<open>Activated\<close>\<close>

text \<open>The first argument is the recursion depth left to the reference walk.\<close>

definition Activated :: "nat \<Rightarrow> host \<Rightarrow> world \<Rightarrow> error + world" where
  "Activated depth h w =
     (case activeDocument h of
        None \<Rightarrow>
          Inr (emit w [E_Information ''No active document found!''
                                     ''You have to open a FCStd file first.''])
      | Some doc \<Rightarrow>
          (case os_path_split h (FileName (documents h doc)) of (path, doc_filename) \<Rightarrow>
           (case getUserParameters h path w of
              Inl e \<Rightarrow> Inl e
            | Inr ((recursion, filename_opt), w1) \<Rightarrow>
                (case filename_opt of
                   None \<Rightarrow> Inr w1
                 | Some filename \<Rightarrow>
                     if filename = [] then Inr w1
                     else
                       (case getBookParameters h doc [] [] w1 of
                          Inl e \<Rightarrow> Inl e
                        | Inr ((standard_fields, editable_fields), w2) \<Rightarrow>
                       (case createTechDrawDocumentList depth h doc_filename path recursion [] w2 of
                          Inl e \<Rightarrow> Inl e
                        | Inr (doc_list, treated, w3) \<Rightarrow>
                       (case computeTechDraw h doc_list standard_fields editable_fields w3 of
                          Inl e \<Rightarrow> Inl e
                        | Inr w4 \<Rightarrow>
                       (case createPDFFile h doc doc_list filename w4 of
                          Inl e \<Rightarrow> Inl e
                        | Inr w5 \<Rightarrow>
                            Inr (emit w5 [E_Information ''TechBook completed''
                                            (''File '' @ filename @ '' created.'')])))))))))"

section \<open>Event phases\<close>

text \<open>
  The step of the command an event belongs to: 0 the dialogs with the user, 1 the
  spreadsheet, 2 the reference walk, 3 the text fields, 4 the export and the merge, 5 the
  closing message.
\<close>

fun phase :: "event \<Rightarrow> nat" where
  "phase (E_Question q) = 0"
| "phase (E_FileDialog d) = 0"
| "phase (E_Information title msg) = (if title = ''TechBook completed'' then 5 else 0)"
| "phase (E_FindSheets d l) = 1"
| "phase (E_SheetGet c i) = 1"
| "phase (E_OpenDocument f) = 2"
| "phase (E_Print m) = 2"
| "phase (E_ReadA2p f) = 2"
| "phase (E_SetEditableTexts p m) = 3"
| "phase (E_Recompute p) = 3"
| "phase (E_DoubleClicked p) = 4"
| "phase (E_ExportPageAsPdf p f) = 4"
| "phase (E_MergerAppend f) = 4"
| "phase (E_WriteFile f) = 4"

section \<open>A sample project\<close>

text \<open>
  A main assembly with two drawing pages and a \<open>#TECHINFO#\<close> sheet, a sub-assembly
  with one page, and a part whose file is gone. The sheet has an empty row 4.
\<close>

definition posix_split :: "string \<Rightarrow> string \<times> string" where
  "posix_split p =
     (let i = length p - length (takeWhile (\<lambda>c. c \<noteq> CHR ''/'') (rev p));
          head = take i p;
          tail = drop i p
      in (if head \<noteq> [] \<and> head \<noteq> replicate (length head) (CHR ''/'')
          then rev (dropWhile (\<lambda>c. c = CHR ''/'') (rev head)) else head,
          tail))"

definition demo_sheet :: sheet where
  "demo_sheet =
     [(Some (PStr ''Stating_Page''), Some (PStr ''3'')),
      (Some (PStr ''Nb_Page_After''), Some (PStr ''many'')),
      (Some (PStr ''TITLE''), Some (PStr ''Gearbox'')),
      (None, None),
      (Some (PStr ''AUTHOR''), Some (PStr ''didier''))]"

definition main_doc :: document where
  "main_doc =
     \<lparr>FileName = ''/p/main'', LastModifiedDate = ''2021-03-07T10:20:30Z'',
      findSheets = (\<lambda>l. if l = ''#TECHINFO#'' then [demo_sheet] else []),
      findDrawPages = [0, 1]\<rparr>"

definition sub_doc :: document where
  "sub_doc =
     \<lparr>FileName = ''/p/sub'', LastModifiedDate = ''2021-03-07T10:20:30'',
      findSheets = (\<lambda>l. []), findDrawPages = [2]\<rparr>"

definition demo_host :: host where
  "demo_host =
     \<lparr>activeDocument = Some 0,
      documents = (\<lambda>d. if d = 0 then main_doc else sub_doc),
      openDocument =
        (\<lambda>f. if f = ''/p/main'' then Inr 0 else if f = ''/p/sub'' then Inr 1 else Inl OSError),
      getA2pObjects =
        (\<lambda>f. if f = ''/p/main''
             then Inr [\<lparr>getA2pSource = ''/p/sub'', isSubassembly = True\<rparr>,
                       \<lparr>getA2pSource = ''/p/gone'', isSubassembly = False\<rparr>,
                       \<lparr>getA2pSource = ''/p/sub'', isSubassembly = False\<rparr>]
             else Inr []),
      findSourceFileInProject = (\<lambda>source path. Some source),
      path_join = (\<lambda>path name. path @ ''/'' @ name),
      os_path_split = posix_split,
      fromisoformat =
        (\<lambda>s. if s = ''2021-03-07T10:20:30'' then Inr \<lparr>year = 2021, month = 3, day = 7\<rparr>
             else Inl ValueError),
      str_float = (\<lambda>r. if r = 1 then ''1.0'' else ''0.5''),
      int_of_str = (\<lambda>s. if s = ''3'' then Some 3 else None),
      getTempFileName = (\<lambda>d name. ''/tmp/'' @ name),
      question_answer = True,
      dialog_result = Some [''/out/book'']\<rparr>"

definition demo_page :: drawpage where
  "demo_page =
     \<lparr>EditableTexts = [(''FC-SH'', []), (''TITLE'', []), (''NOTE'', ''keep'')],
      Scale = 1, Visibility = False\<rparr>"

definition demo_world :: world where
  "demo_world = \<lparr>w_pages = (\<lambda>p. demo_page), w_files = (\<lambda>f. None), w_trace = []\<rparr>"

text \<open>
  A page whose template has no sheet field, and a project of one document with one
  drawing page and no imported object.
\<close>

definition bare_page :: drawpage where
  "bare_page = \<lparr>EditableTexts = [(''TITLE'', [])], Scale = 1, Visibility = False\<rparr>"

definition bare_world :: world where
  "bare_world = \<lparr>w_pages = (\<lambda>p. bare_page), w_files = (\<lambda>f. None), w_trace = []\<rparr>"

definition solo_host :: host where
  "solo_host =
     demo_host
       \<lparr>documents := (\<lambda>d. main_doc\<lparr>findDrawPages := [0]\<rparr>),
        getA2pObjects := (\<lambda>f. Inr [])\<rparr>"

text \<open>Two assemblies that include each other as sub-assemblies.\<close>

definition cyclic_host :: host where
  "cyclic_host =
     demo_host
       \<lparr>openDocument :=
          (\<lambda>f. if f = ''/p/a'' then Inr 0 else if f = ''/p/b'' then Inr 1 else Inl OSError),
        getA2pObjects :=
          (\<lambda>f. if f = ''/p/a'' then Inr [\<lparr>getA2pSource = ''/p/b'', isSubassembly = True\<rparr>]
               else if f = ''/p/b'' then Inr [\<lparr>getA2pSource = ''/p/a'', isSubassembly = True\<rparr>]
               else Inr [])\<rparr>"

section \<open>What the walk adds\<close>

text \<open>
  The tuples \<open>(doc, page)\<close> of one document, and the relation between \<open>treated\<close>
  before and after a step of the walk that returned the pages \<open>ps\<close>: the step
  appended documents that were not treated before, each once, and \<open>ps\<close> is the pages of
  exactly these documents, in that order.
\<close>

definition document_pages :: "host \<Rightarrow> doc \<Rightarrow> (doc \<times> page) list" where
  "document_pages h d = map (\<lambda>i. (d, i)) (findDrawPages (documents h d))"

definition treats_new :: "host \<Rightarrow> doc list \<Rightarrow> (doc \<times> page) list \<Rightarrow> doc list \<Rightarrow> bool" where
  "treats_new h treated ps treated' =
     (\<exists>new. treated' = treated @ new \<and> distinct new \<and> set new \<inter> set treated = {}
            \<and> ps = concat (map (document_pages h) new))"

section \<open>Reading the trace\<close>

text \<open>
  The exports, the merger's appends and the file writes among a list of events, and the
  name of the temporary file of the \<open>nb\<close>-th page.
\<close>

fun exported :: "event \<Rightarrow> (page \<times> string) option" where
  "exported (E_ExportPageAsPdf p f) = Some (p, f)"
| "exported e = None"

fun appended :: "event \<Rightarrow> string option" where
  "appended (E_MergerAppend f) = Some f"
| "appended e = None"

fun written :: "event \<Rightarrow> string option" where
  "written (E_WriteFile f) = Some f"
| "written e = None"

definition temp_pdf :: "host \<Rightarrow> doc \<Rightarrow> int \<Rightarrow> string" where
  "temp_pdf h base_doc nb = getTempFileName h base_doc (''Page'' @ str_int nb) @ ''.pdf''"

fun numbered_from :: "int \<Rightarrow> 'a list \<Rightarrow> (int \<times> 'a) list" where
  "numbered_from nb [] = []"
| "numbered_from nb (x # xs) = (nb, x) # numbered_from (nb + 1) xs"

text \<open>A date string without its trailing \<open>Z\<close>, when it has one.\<close>

definition strip_Z :: "string \<Rightarrow> string" where
  "strip_Z s = (if s \<noteq> [] \<and> last s = CHR ''Z'' then butlast s else s)"

text \<open>A dictionary whose keys and values are all strings.\<close>

fun is_str :: "pyval \<Rightarrow> bool" where
  "is_str (PStr s) = True"
| "is_str (PInt i) = False"

definition str_dict :: "(pyval, pyval) dict \<Rightarrow> bool" where
  "str_dict d = list_all (\<lambda>(k, v). is_str k \<and> is_str v) d"

section \<open>What the spreadsheet says\<close>

text \<open>
  The rows the \<open>while\<close> loop reads from a sheet: rows 1, 2, ... up to the first row
  whose cell A or cell B is empty. \<open>rows_read\<close> are the rows read from the first sheet
  labelled \<open>#TECHINFO#\<close> of a document, none when it has no such sheet. A key's value
  is taken from the last row read that has the key. \<open>standard_value\<close> is what a standard
  field gets from its default and the value of its row.
\<close>

fun complete_rows :: "sheet \<Rightarrow> (pyval \<times> pyval) list" where
  "complete_rows [] = []"
| "complete_rows ((Some k, Some v) # rows) = (k, v) # complete_rows rows"
| "complete_rows (_ # rows) = []"

definition rows_read :: "host \<Rightarrow> doc \<Rightarrow> (pyval \<times> pyval) list" where
  "rows_read h doc =
     (case findSheets (documents h doc) INFO_SPREADSHEET_LABEL of
        [] \<Rightarrow> []
      | sheet0 # _ \<Rightarrow> complete_rows sheet0)"

definition last_row :: "(pyval \<times> pyval) list \<Rightarrow> pyval \<Rightarrow> pyval option" where
  "last_row rows k = map_of (rev rows) k"

definition standard_value :: "host \<Rightarrow> pyval \<Rightarrow> pyval \<Rightarrow> pyval option \<Rightarrow> pyval" where
  "standard_value h k dflt row =
     (case row of
        None \<Rightarrow> dflt
      | Some v \<Rightarrow>
          if k = PStr ''Stating_Page'' \<or> k = PStr ''Nb_Page_After''
          then (case py_int h v of Inr i \<Rightarrow> PInt i | Inl e \<Rightarrow> dflt)
          else v)"

section \<open>Properties\<close>

lemma endswith_append: "endswith (s @ suf) suf"
  by (simp add: endswith_def)

text \<open>
  C9. Whatever file name the user selects in the save dialog, \<open>_getUserParameters\<close>
  returns it unchanged when it already ends with \<open>.pdf\<close> and with \<open>.pdf\<close> appended
  otherwise; the returned name ends with \<open>.pdf\<close> in both cases.
\<close>

theorem getUserParameters_pdf_suffix:
  assumes "dialog_result h = Some (filename # others)"
  shows "getUserParameters h working_dir w =
           Inr ((question_answer h,
                 Some (if endswith filename ''.pdf'' then filename else filename @ ''.pdf'')),
                emit (emit w [E_Question ''Do you want to iterate recursively over all included subassemblies?''])
                     [E_FileDialog working_dir])
         \<and> endswith (if endswith filename ''.pdf'' then filename else filename @ ''.pdf'') ''.pdf''"
  using assms by (simp add: getUserParameters_def Let_def endswith_append)

theorem getUserParameters_pdf_suffix_witness:
  "dialog_result demo_host = Some [''/out/book'']
   \<and> getUserParameters demo_host ''/p'' demo_world =
       Inr ((True, Some ''/out/book.pdf''),
            emit (emit demo_world [E_Question ''Do you want to iterate recursively over all included subassemblies?''])
                 [E_FileDialog ''/p''])
   \<and> endswith ''/out/book.pdf'' ''.pdf''"
  using getUserParameters_pdf_suffix [of demo_host "''/out/book''" "[]" "''/p''" demo_world]
  by (simp add: demo_host_def endswith_def)

text \<open>
  C10. When the save dialog is cancelled, \<open>Activated\<close> returns right after the abort
  message: the world it leaves differs from the one it found only by the three dialog
  events at the end of the trace. No document was opened, no sheet or file was read, no
  page and no file changed.
\<close>

theorem Activated_cancelled:
  assumes "activeDocument h = Some doc" and "dialog_result h = None"
  shows "Activated depth h w =
           Inr (w\<lparr>w_trace := w_trace w @
                  [E_Question ''Do you want to iterate recursively over all included subassemblies?'',
                   E_FileDialog (fst (os_path_split h (FileName (documents h doc)))),
                   E_Information ''Technical book generation aborted!''
                                 ''You have to give a file to save the book.'']\<rparr>)"
  using assms
  by (simp add: Activated_def getUserParameters_def emit_def Let_def split: prod.splits)

theorem Activated_cancelled_witness:
  "activeDocument (demo_host\<lparr>dialog_result := None\<rparr>) = Some 0
   \<and> dialog_result (demo_host\<lparr>dialog_result := None\<rparr>) = None
   \<and> Activated 5 (demo_host\<lparr>dialog_result := None\<rparr>) demo_world =
       Inr (demo_world\<lparr>w_trace :=
              [E_Question ''Do you want to iterate recursively over all included subassemblies?'',
               E_FileDialog ''/p'',
               E_Information ''Technical book generation aborted!''
                             ''You have to give a file to save the book.'']\<rparr>)"
  using Activated_cancelled [of "demo_host\<lparr>dialog_result := None\<rparr>" 0 5 demo_world]
  by (simp add: demo_host_def demo_world_def main_doc_def posix_split_def Let_def)

subsection \<open>The reference walk\<close>

text \<open>
  Whenever the walk returns, it has appended to \<open>treated\<close> documents that were not
  there, each once, and the pages it returns are the pages of these documents, each
  document once, in the order of their first visit.
\<close>

lemma treats_new_refl: "treats_new h t [] t"
  by (simp add: treats_new_def)

lemma treats_new_trans:
  assumes "treats_new h t ps1 t1" and "treats_new h t1 ps2 t2"
  shows "treats_new h t (ps1 @ ps2) t2"
proof -
  from assms(1) obtain n1 where n1: "t1 = t @ n1" "distinct n1" "set n1 \<inter> set t = {}"
    "ps1 = concat (map (document_pages h) n1)"
    by (auto simp: treats_new_def)
  from assms(2) obtain n2 where n2: "t2 = t1 @ n2" "distinct n2" "set n2 \<inter> set t1 = {}"
    "ps2 = concat (map (document_pages h) n2)"
    by (auto simp: treats_new_def)
  have "t2 = t @ (n1 @ n2)" using n1 n2 by simp
  moreover have "distinct (n1 @ n2)" using n1 n2 by auto
  moreover have "set (n1 @ n2) \<inter> set t = {}" using n1 n2 by auto
  moreover have "ps1 @ ps2 = concat (map (document_pages h) (n1 @ n2))" using n1 n2 by simp
  ultimately show ?thesis unfolding treats_new_def by blast
qed

lemma getDocumentTechDraw_treats_new:
  assumes "getDocumentTechDraw h f treated w = Inr (ps, treated', w')"
  shows "treats_new h treated ps treated'"
proof (cases "openDocument h f")
  case (Inl e)
  with assms show ?thesis
    by (auto simp: getDocumentTechDraw_def treats_new_def split: if_splits)
next
  case (Inr d)
  show ?thesis
  proof (cases "d \<in> set treated")
    case True
    with assms Inr show ?thesis
      by (auto simp: getDocumentTechDraw_def treats_new_def Let_def)
  next
    case False
    with assms Inr have "treated' = treated @ [d]" and "ps = document_pages h d"
      by (auto simp: getDocumentTechDraw_def Let_def document_pages_def split: if_splits)
    with False show ?thesis
      unfolding treats_new_def by (intro exI [of _ "[d]"]) simp
  qed
qed

lemma for_loop_walk_body_treats_new:
  assumes rec: "\<And>n p r t w ps t' w'. recurse n p r t w = Inr (ps, t', w') \<Longrightarrow> treats_new h t ps t'"
  shows "for_loop (walk_body recurse h fp r) obs (ret, t, w) = Inr (ret', t', w')
         \<Longrightarrow> \<exists>ps. ret' = ret @ ps \<and> treats_new h t ps t'"
proof (induction obs arbitrary: ret t w)
  case Nil
  then show ?case by (simp add: treats_new_refl)
next
  case (Cons ob obs)
  from Cons.prems obtain ret1 t1 w1 where
    step: "walk_body recurse h fp r ob (ret, t, w) = Inr (ret1, t1, w1)"
    and rest: "for_loop (walk_body recurse h fp r) obs (ret1, t1, w1) = Inr (ret', t', w')"
    by (auto split: sum.splits)
  from step obtain ps1 where ps1: "ret1 = ret @ ps1" "treats_new h t ps1 t1"
    by (auto simp: walk_body_def split: option.splits prod.splits sum.splits if_splits
             dest: rec getDocumentTechDraw_treats_new)
  from Cons.IH [OF rest] obtain ps2 where ps2: "ret' = ret1 @ ps2" "treats_new h t1 ps2 t'"
    by blast
  from ps1 ps2 have "ret' = ret @ (ps1 @ ps2)" by simp
  moreover from ps1 ps2 have "treats_new h t (ps1 @ ps2) t'" by (blast intro: treats_new_trans)
  ultimately show ?case by blast
qed

lemma createTechDrawDocumentList_treats_new:
  "createTechDrawDocumentList depth h n p r treated w = Inr (ps, treated', w')
   \<Longrightarrow> treats_new h treated ps treated'"
proof (induction depth arbitrary: n p r treated w ps treated' w')
  case 0
  then show ?case by simp
next
  case (Suc depth)
  from Suc.prems obtain ret1 t1 w1 obs where
    first: "getDocumentTechDraw h (path_join h p n) treated w = Inr (ret1, t1, w1)"
    and loop: "for_loop (walk_body (createTechDrawDocumentList depth h) h p r) obs
                 (ret1, t1, emit w1 [E_ReadA2p (path_join h p n)]) = Inr (ps, treated', w')"
    by (auto simp: Let_def split: sum.splits prod.splits)
  have a: "treats_new h treated ret1 t1"
    using first by (rule getDocumentTechDraw_treats_new)
  have "\<exists>ps2. ps = ret1 @ ps2 \<and> treats_new h t1 ps2 treated'"
    using loop by (rule for_loop_walk_body_treats_new [rotated]) (rule Suc.IH)
  then obtain ps2 where "ps = ret1 @ ps2" "treats_new h t1 ps2 treated'"
    by blast
  with a show ?case by (blast intro: treats_new_trans)
qed

lemma createTechDrawDocumentList_no_duplicates:
  assumes "createTechDrawDocumentList depth h n p r treated w = Inr (ps, treated', w')"
    and "distinct treated"
  shows "distinct treated' \<and> (\<forall>d \<in> set treated. d \<notin> fst ` set ps)"
  using createTechDrawDocumentList_treats_new [OF assms(1)] assms(2)
  by (auto simp: treats_new_def document_pages_def)

lemma cyclic_walk_both:
  "createTechDrawDocumentList depth cyclic_host ''a'' ''/p'' True treated w = Inl RecursionError
   \<and> createTechDrawDocumentList depth cyclic_host ''b'' ''/p'' True treated w = Inl RecursionError"
proof (induction depth arbitrary: treated w)
  case 0
  show ?case by simp
next
  case (Suc depth)
  have sa: "os_path_split cyclic_host ''/p/a'' = (''/p'', ''a'')"
    by (simp add: cyclic_host_def demo_host_def posix_split_def Let_def)
  have sb: "os_path_split cyclic_host ''/p/b'' = (''/p'', ''b'')"
    by (simp add: cyclic_host_def demo_host_def posix_split_def Let_def)
  have ja: "path_join cyclic_host ''/p'' ''a'' = ''/p/a''"
    and jb: "path_join cyclic_host ''/p'' ''b'' = ''/p/b''"
    by (simp_all add: cyclic_host_def demo_host_def)
  have oa: "getA2pObjects cyclic_host ''/p/a'' = Inr [\<lparr>getA2pSource = ''/p/b'', isSubassembly = True\<rparr>]"
    and ob: "getA2pObjects cyclic_host ''/p/b'' = Inr [\<lparr>getA2pSource = ''/p/a'', isSubassembly = True\<rparr>]"
    by (simp_all add: cyclic_host_def)
  have fs: "\<And>s p. findSourceFileInProject cyclic_host s p = Some s"
    by (simp add: cyclic_host_def demo_host_def)
  have da: "\<exists>r. getDocumentTechDraw cyclic_host ''/p/a'' treated w = Inr r"
    and db: "\<exists>r. getDocumentTechDraw cyclic_host ''/p/b'' treated w = Inr r"
    by (simp_all add: getDocumentTechDraw_def cyclic_host_def Let_def)
  from da obtain ra ta wa where ra: "getDocumentTechDraw cyclic_host ''/p/a'' treated w = Inr (ra, ta, wa)"
    by (metis prod_cases3)
  from db obtain rb tb wb where rb: "getDocumentTechDraw cyclic_host ''/p/b'' treated w = Inr (rb, tb, wb)"
    by (metis prod_cases3)
  show ?case
    by (simp add: ja jb oa ob ra rb walk_body_def fs sa sb Suc.IH)
qed

text \<open>
  C2. On two assemblies that include each other as sub-assemblies the recursive walk
  returns no list: with any recursion depth it ends in \<open>RecursionError\<close>. The test
  \<open>doc in treated\<close> stops a document's pages from being collected twice; it does not
  stop the walk from reading the document's file and following its references again.
\<close>

theorem createTechDrawDocumentList_cycle_never_returns:
  "createTechDrawDocumentList depth cyclic_host ''a'' ''/p'' True [] w = Inl RecursionError"
  by (simp add: cyclic_walk_both)

subsection \<open>The merged file\<close>

lemma map_filter_append: "List.map_filter f (xs @ ys) = List.map_filter f xs @ List.map_filter f ys"
  by (simp add: List.map_filter_def)

lemma createPDFFile_body_result:
  "\<exists>w' evs. createPDFFile_body h base_doc (d, p) (nb, merger, w) =
            Inr (nb + 1, merger @ [(p, EditableTexts (w_pages w p))], w')
     \<and> (\<forall>q. EditableTexts (w_pages w' q) = EditableTexts (w_pages w q))
     \<and> w_trace w' = w_trace w @ evs
     \<and> List.map_filter exported evs = [(p, temp_pdf h base_doc nb)]
     \<and> List.map_filter appended evs = [temp_pdf h base_doc nb]
     \<and> List.map_filter written evs = []
     \<and> list_all (\<lambda>e. phase e = 4) evs"
proof (cases "Visibility (w_pages w p)")
  case True
  show ?thesis
    apply (rule exI [of _ "emit (exportPageAsPdf p (temp_pdf h base_doc nb) w) [E_MergerAppend (temp_pdf h base_doc nb)]"])
    apply (rule exI [of _ "[E_ExportPageAsPdf p (temp_pdf h base_doc nb), E_MergerAppend (temp_pdf h base_doc nb)]"])
    using True
    apply (simp add: createPDFFile_body_def Let_def exportPageAsPdf_def merger_append_def emit_def
                     temp_pdf_def List.map_filter_def)
    done
next
  case False
  show ?thesis
    apply (rule exI [of _ "emit (exportPageAsPdf p (temp_pdf h base_doc nb) (doubleClicked p w)) [E_MergerAppend (temp_pdf h base_doc nb)]"])
    apply (rule exI [of _ "[E_DoubleClicked p, E_ExportPageAsPdf p (temp_pdf h base_doc nb), E_MergerAppend (temp_pdf h base_doc nb)]"])
    using False
    apply (simp add: createPDFFile_body_def Let_def exportPageAsPdf_def merger_append_def emit_def
                     doubleClicked_def temp_pdf_def List.map_filter_def)
    done
qed

lemma createPDFFile_loop:
  "\<exists>w' evs. for_loop (createPDFFile_body h base_doc) doc_list (nb, merger, w) =
            Inr (nb + int (length doc_list),
                 merger @ map (\<lambda>(d, p). (p, EditableTexts (w_pages w p))) doc_list, w')
     \<and> (\<forall>q. EditableTexts (w_pages w' q) = EditableTexts (w_pages w q))
     \<and> w_trace w' = w_trace w @ evs
     \<and> List.map_filter exported evs =
         map (\<lambda>(i, (d, p)). (p, temp_pdf h base_doc i)) (numbered_from nb doc_list)
     \<and> List.map_filter appended evs =
         map (\<lambda>(i, dp). temp_pdf h base_doc i) (numbered_from nb doc_list)
     \<and> List.map_filter written evs = []
     \<and> list_all (\<lambda>e. phase e = 4) evs"
proof (induction doc_list arbitrary: nb merger w)
  case Nil
  show ?case by (simp add: List.map_filter_def)
next
  case (Cons dp doc_list)
  obtain d p where dp: "dp = (d, p)" by (cases dp)
  from createPDFFile_body_result [of h base_doc d p nb merger w]
  obtain w1 evs1 where
    b: "createPDFFile_body h base_doc (d, p) (nb, merger, w) =
          Inr (nb + 1, merger @ [(p, EditableTexts (w_pages w p))], w1)"
    and t1: "\<forall>q. EditableTexts (w_pages w1 q) = EditableTexts (w_pages w q)"
    and tr1: "w_trace w1 = w_trace w @ evs1"
    and e1: "List.map_filter exported evs1 = [(p, temp_pdf h base_doc nb)]"
    and a1: "List.map_filter appended evs1 = [temp_pdf h base_doc nb]"
    and wr1: "List.map_filter written evs1 = []"
    and ph1: "list_all (\<lambda>e. phase e = 4) evs1"
    by blast
  from Cons.IH [of "nb + 1" "merger @ [(p, EditableTexts (w_pages w p))]" w1]
  obtain w2 evs2 where
    l: "for_loop (createPDFFile_body h base_doc) doc_list
          (nb + 1, merger @ [(p, EditableTexts (w_pages w p))], w1) =
        Inr (nb + 1 + int (length doc_list),
             (merger @ [(p, EditableTexts (w_pages w p))]) @
               map (\<lambda>(d, p). (p, EditableTexts (w_pages w1 p))) doc_list, w2)"
    and t2: "\<forall>q. EditableTexts (w_pages w2 q) = EditableTexts (w_pages w1 q)"
    and tr2: "w_trace w2 = w_trace w1 @ evs2"
    and e2: "List.map_filter exported evs2 =
               map (\<lambda>(i, (d, p)). (p, temp_pdf h base_doc i)) (numbered_from (nb + 1) doc_list)"
    and a2: "List.map_filter appended evs2 =
               map (\<lambda>(i, dp). temp_pdf h base_doc i) (numbered_from (nb + 1) doc_list)"
    and wr2: "List.map_filter written evs2 = []"
    and ph2: "list_all (\<lambda>e. phase e = 4) evs2"
    by blast
  have same: "map (\<lambda>(d, p). (p, EditableTexts (w_pages w1 p))) doc_list =
              map (\<lambda>(d, p). (p, EditableTexts (w_pages w p))) doc_list"
    using t1 by simp
  show ?case
    apply (rule exI [of _ w2])
    apply (rule exI [of _ "evs1 @ evs2"])
    using b l t1 t2 tr1 tr2 e1 e2 a1 a2 wr1 wr2 ph1 ph2
    apply (simp add: dp same map_filter_append add.commute add.left_commute)
    done
qed

text \<open>
  C3. \<open>_createPDFFile\<close> returns for every document list. It exports one temporary
  file per tuple, \<open>Page1\<close>, \<open>Page2\<close>, ... in the order of the list, appends these
  files to the merger in the same order, and writes once, to the file name it was given,
  after all exports. The file written holds the pages of the list in the list's order,
  each with the texts it had when the function was called.
\<close>

theorem createPDFFile_book:
  "\<exists>w' evs. createPDFFile h base_doc doc_list filename w = Inr w'
     \<and> w_files w' filename = Some (map (\<lambda>(d, p). (p, EditableTexts (w_pages w p))) doc_list)
     \<and> w_trace w' = w_trace w @ evs @ [E_WriteFile filename]
     \<and> List.map_filter exported evs =
         map (\<lambda>(i, (d, p)). (p, temp_pdf h base_doc i)) (numbered_from 1 doc_list)
     \<and> List.map_filter appended evs =
         map (\<lambda>(i, dp). temp_pdf h base_doc i) (numbered_from 1 doc_list)
     \<and> List.map_filter written evs = []"
proof -
  from createPDFFile_loop [of h base_doc doc_list 1 "[]" w]
  obtain w1 evs where
    l: "for_loop (createPDFFile_body h base_doc) doc_list (1, [], w) =
          Inr (1 + int (length doc_list),
               [] @ map (\<lambda>(d, p). (p, EditableTexts (w_pages w p))) doc_list, w1)"
    and tr: "w_trace w1 = w_trace w @ evs"
    and e: "List.map_filter exported evs =
              map (\<lambda>(i, (d, p)). (p, temp_pdf h base_doc i)) (numbered_from 1 doc_list)"
    and a: "List.map_filter appended evs =
              map (\<lambda>(i, dp). temp_pdf h base_doc i) (numbered_from 1 doc_list)"
    and wr: "List.map_filter written evs = []"
    by blast
  show ?thesis
    apply (rule exI [of _ "emit (w1\<lparr>w_files := (w_files w1)(filename \<mapsto> map (\<lambda>(d, p). (p, EditableTexts (w_pages w p))) doc_list)\<rparr>) [E_WriteFile filename]"])
    apply (rule exI [of _ evs])
    using l tr e a wr
    apply (simp add: createPDFFile_def emit_def)
    done
qed

subsection \<open>The text fields of a page\<close>

lemma map_of_dict_set: "map_of (dict_set d k v) = (map_of d)(k \<mapsto> v)"
  by (induction d) (auto simp: fun_eq_iff)

lemma keys_dict_set: "fst ` set (dict_set d k v) = insert k (fst ` set d)"
proof -
  have "fst ` set (dict_set d k v) = dom (map_of (dict_set d k v))"
    by (simp add: dom_map_of_conv_image_fst)
  also have "\<dots> = insert k (dom (map_of d))"
    by (simp add: map_of_dict_set)
  also have "\<dots> = insert k (fst ` set d)"
    by (simp add: dom_map_of_conv_image_fst)
  finally show ?thesis .
qed

lemma distinct_dict_set: "distinct (map fst d) \<Longrightarrow> distinct (map fst (dict_set d k v))"
proof (induction d)
  case Nil
  show ?case by simp
next
  case (Cons a d)
  obtain k' v' where a: "a = (k', v')" by (cases a)
  from Cons show ?case
    using keys_dict_set [of d k v] by (auto simp: a image_iff)
qed

lemma dom_apply_templates_data:
  "dom (map_of (apply_templates_data td texts)) = dom (map_of texts)"
proof (induction td arbitrary: texts)
  case Nil
  show ?case by simp
next
  case (Cons a td)
  obtain k v where a: "a = (k, v)" by (cases a)
  have "dom (map_of (if dict_in k texts then dict_set texts k v else texts)) = dom (map_of texts)"
    by (auto simp: dict_in_def dict_get_def map_of_dict_set)
  then show ?case
    by (simp add: a Cons.IH)
qed

lemma map_of_apply_templates_data:
  "distinct (map fst td) \<Longrightarrow>
   map_of (apply_templates_data td texts) k =
     (case map_of texts k of
        None \<Rightarrow> None
      | Some old \<Rightarrow> (case map_of td k of None \<Rightarrow> Some old | Some v \<Rightarrow> Some v))"
proof (induction td arbitrary: texts)
  case Nil
  show ?case by (simp split: option.splits)
next
  case (Cons a td)
  obtain k' v' where a: "a = (k', v')" by (cases a)
  from Cons.prems have d: "distinct (map fst td)" and nk: "k' \<notin> fst ` set td"
    by (auto simp: a)
  have none: "map_of td k' = None"
    using nk by (simp add: map_of_eq_None_iff)
  show ?case
    using Cons.IH [OF d, of "if dict_in k' texts then dict_set texts k' v' else texts"] none
    by (auto simp: a dict_in_def dict_get_def map_of_dict_set split: option.splits)
qed

lemma to_property_map_Inr:
  "to_property_map d = Inr m \<Longrightarrow> d = map (\<lambda>(k, v). (PStr k, PStr v)) m"
proof (induction d arbitrary: m rule: to_property_map.induct)
  case 1
  then show ?case by simp
next
  case (2 k v d)
  then show ?case by (auto split: sum.splits)
qed simp_all

lemma map_of_PStr_map:
  "map_of (map (\<lambda>(k, v). (PStr k, PStr v)) m) (PStr name) = map_option PStr (map_of m name)"
  by (induction m) auto

lemma map_of_PInt_map:
  "map_of (map (\<lambda>(k, v). (PStr k, PStr v)) m) (PInt i) = None"
  by (induction m) auto

lemma to_property_map_lookup:
  "to_property_map d = Inr m \<Longrightarrow> map_option PStr (map_of m name) = map_of d (PStr name)"
  by (drule to_property_map_Inr) (simp add: map_of_PStr_map)

lemma to_property_map_keys:
  "to_property_map d = Inr m \<Longrightarrow> k \<in> dom (map_of d) \<Longrightarrow> \<exists>name. k = PStr name"
  by (drule to_property_map_Inr) (cases k; auto simp: map_of_PInt_map)

lemma computeEditableFields_Inr:
  assumes "computeEditableFields h doc page td df scf w = Inr w'"
  shows "\<exists>modified m.
           fromisoformat h (strip_Z (LastModifiedDate (documents h doc))) = Inr modified
         \<and> to_property_map
             (apply_templates_data td
               (dict_set (dict_set (get_EditableTexts (w_pages w page)) df (PStr (strftime_dmY modified)))
                  scf (PStr (str_float h (Scale (w_pages w page)))))) = Inr m
         \<and> w' = emit (w\<lparr>w_pages := (w_pages w)(page := (w_pages w page)\<lparr>EditableTexts := m\<rparr>)\<rparr>)
                  [E_SetEditableTexts page m, E_Recompute page]"
  using assms
  by (auto simp: computeEditableFields_def Let_def strip_Z_def split: if_splits sum.splits)

text \<open>The value a key has in the dictionary that \<open>_computeEditableFields\<close> assigns.\<close>

lemma computeEditableFields_texts:
  assumes run: "computeEditableFields h doc page td df scf w = Inr w'"
    and dist: "distinct (map fst td)"
  shows "\<exists>modified.
           fromisoformat h (strip_Z (LastModifiedDate (documents h doc))) = Inr modified
         \<and> (\<forall>name. map_option PStr (map_of (EditableTexts (w_pages w' page)) name) =
               (case ((map_of (get_EditableTexts (w_pages w page)))
                        (df \<mapsto> PStr (strftime_dmY modified),
                         scf \<mapsto> PStr (str_float h (Scale (w_pages w page))))) (PStr name) of
                  None \<Rightarrow> None
                | Some old \<Rightarrow> (case map_of td (PStr name) of None \<Rightarrow> Some old | Some v \<Rightarrow> Some v)))
         \<and> (\<exists>dname. df = PStr dname) \<and> (\<exists>sname. scf = PStr sname)
         \<and> (\<forall>q. q \<noteq> page \<longrightarrow> w_pages w' q = w_pages w q)
         \<and> Scale (w_pages w' page) = Scale (w_pages w page)
         \<and> Visibility (w_pages w' page) = Visibility (w_pages w page)
         \<and> w_files w' = w_files w
         \<and> w_trace w' = w_trace w @ [E_SetEditableTexts page (EditableTexts (w_pages w' page)), E_Recompute page]"
proof -
  from computeEditableFields_Inr [OF run] obtain modified m where
    p: "fromisoformat h (strip_Z (LastModifiedDate (documents h doc))) = Inr modified"
    and m: "to_property_map
             (apply_templates_data td
               (dict_set (dict_set (get_EditableTexts (w_pages w page)) df (PStr (strftime_dmY modified)))
                  scf (PStr (str_float h (Scale (w_pages w page)))))) = Inr m"
    and w': "w' = emit (w\<lparr>w_pages := (w_pages w)(page := (w_pages w page)\<lparr>EditableTexts := m\<rparr>)\<rparr>)
                  [E_SetEditableTexts page m, E_Recompute page]"
    by blast
  let ?t2 = "dict_set (dict_set (get_EditableTexts (w_pages w page)) df (PStr (strftime_dmY modified)))
                  scf (PStr (str_float h (Scale (w_pages w page))))"
  have dom: "dom (map_of (apply_templates_data td ?t2)) = dom (map_of ?t2)"
    by (rule dom_apply_templates_data)
  have "df \<in> dom (map_of ?t2)" and "scf \<in> dom (map_of ?t2)"
    by (auto simp: map_of_dict_set)
  with dom have "df \<in> dom (map_of (apply_templates_data td ?t2))"
    and "scf \<in> dom (map_of (apply_templates_data td ?t2))"
    by simp_all
  with m have keys: "\<exists>dname. df = PStr dname" "\<exists>sname. scf = PStr sname"
    by (blast dest: to_property_map_keys)+
  have look: "\<And>name. map_option PStr (map_of m name) =
      (case ((map_of (get_EditableTexts (w_pages w page)))
                        (df \<mapsto> PStr (strftime_dmY modified),
                         scf \<mapsto> PStr (str_float h (Scale (w_pages w page))))) (PStr name) of
                  None \<Rightarrow> None
                | Some old \<Rightarrow> (case map_of td (PStr name) of None \<Rightarrow> Some old | Some v \<Rightarrow> Some v))"
    using to_property_map_lookup [OF m] map_of_apply_templates_data [OF dist, of ?t2]
    by (simp add: map_of_dict_set)
  show ?thesis
    apply (rule exI [of _ modified])
    using p keys look
    apply (simp add: w' emit_def)
    done
qed

text \<open>
  C5, as amended. Take a call of \<open>_computeEditableFields\<close> that returns, and a key
  other than the date field and the scale field. A text with this key that the template
  does not have is not created. A text the template has takes the value that
  \<open>templates_data\<close> holds under the key, and keeps its previous value when
  \<open>templates_data\<close> has no such key. The other pages and the files are untouched.
  (The date field and the scale field are written in every case, also into a template
  that has no such text.)
\<close>

theorem computeEditableFields_frame:
  assumes run: "computeEditableFields h doc page templates_data date_field scale_field w = Inr w'"
    and dist: "distinct (map fst templates_data)"
    and nd: "PStr name \<noteq> date_field" and ns: "PStr name \<noteq> scale_field"
  shows "map_option PStr (map_of (EditableTexts (w_pages w' page)) name) =
           (case map_of (EditableTexts (w_pages w page)) name of
              None \<Rightarrow> None
            | Some old \<Rightarrow>
                (case dict_get templates_data (PStr name) of
                   None \<Rightarrow> Some (PStr old)
                 | Some v \<Rightarrow> Some v))
         \<and> (\<forall>q. q \<noteq> page \<longrightarrow> w_pages w' q = w_pages w q)
         \<and> w_files w' = w_files w"
proof -
  from computeEditableFields_texts [OF run dist] obtain modified where
    look: "\<And>name. map_option PStr (map_of (EditableTexts (w_pages w' page)) name) =
               (case ((map_of (get_EditableTexts (w_pages w page)))
                        (date_field \<mapsto> PStr (strftime_dmY modified),
                         scale_field \<mapsto> PStr (str_float h (Scale (w_pages w page))))) (PStr name) of
                  None \<Rightarrow> None
                | Some old \<Rightarrow> (case map_of templates_data (PStr name) of None \<Rightarrow> Some old | Some v \<Rightarrow> Some v))"
    and others: "\<forall>q. q \<noteq> page \<longrightarrow> w_pages w' q = w_pages w q"
    and files: "w_files w' = w_files w"
    by blast
  have "map_option PStr (map_of (EditableTexts (w_pages w' page)) name) =
           (case map_of (EditableTexts (w_pages w page)) name of
              None \<Rightarrow> None
            | Some old \<Rightarrow>
                (case dict_get templates_data (PStr name) of
                   None \<Rightarrow> Some (PStr old)
                 | Some v \<Rightarrow> Some v))"
    using look [of name] nd ns
    by (auto simp: get_EditableTexts_def map_of_PStr_map dict_get_def split: option.splits)
  with others files show ?thesis by blast
qed

text \<open>
  C6, as amended. After a call of \<open>_computeEditableFields\<close> that returns, the date
  string of the document has been parsed without its trailing \<open>Z\<close>, and both field
  names are strings. The scale field holds \<open>str(page.Scale)\<close> and the date field holds
  the date as day/month/year, unless \<open>templates_data\<close> has an entry under the same key:
  that entry is then the value of the field. When the two fields have the same key and
  \<open>templates_data\<close> has no entry under it, the field holds the scale.
\<close>

theorem computeEditableFields_date_scale:
  assumes run: "computeEditableFields h doc page templates_data date_field scale_field w = Inr w'"
    and dist: "distinct (map fst templates_data)"
  shows "\<exists>modified dname sname.
           fromisoformat h (strip_Z (LastModifiedDate (documents h doc))) = Inr modified
         \<and> date_field = PStr dname \<and> scale_field = PStr sname
         \<and> map_option PStr (map_of (EditableTexts (w_pages w' page)) dname) =
             (case dict_get templates_data date_field of
                Some v \<Rightarrow> Some v
              | None \<Rightarrow>
                  if date_field = scale_field
                  then Some (PStr (str_float h (Scale (w_pages w page))))
                  else Some (PStr (strftime_dmY modified)))
         \<and> map_option PStr (map_of (EditableTexts (w_pages w' page)) sname) =
             (case dict_get templates_data scale_field of
                Some v \<Rightarrow> Some v
              | None \<Rightarrow> Some (PStr (str_float h (Scale (w_pages w page)))))"
proof -
  from computeEditableFields_texts [OF run dist] obtain modified dname sname where
    p: "fromisoformat h (strip_Z (LastModifiedDate (documents h doc))) = Inr modified"
    and look: "\<And>name. map_option PStr (map_of (EditableTexts (w_pages w' page)) name) =
               (case ((map_of (get_EditableTexts (w_pages w page)))
                        (date_field \<mapsto> PStr (strftime_dmY modified),
                         scale_field \<mapsto> PStr (str_float h (Scale (w_pages w page))))) (PStr name) of
                  None \<Rightarrow> None
                | Some old \<Rightarrow> (case map_of templates_data (PStr name) of None \<Rightarrow> Some old | Some v \<Rightarrow> Some v))"
    and d: "date_field = PStr dname" and s: "scale_field = PStr sname"
    by blast
  show ?thesis
    apply (rule exI [of _ modified])
    apply (rule exI [of _ dname])
    apply (rule exI [of _ sname])
    using p d s look [of dname] look [of sname]
    apply (auto simp: dict_get_def split: option.splits)
    done
qed

subsection \<open>Sheet numbers\<close>

lemma computeTechDraw_body_step:
  assumes step: "computeTechDraw_body h nb df scf (PStr sheet) (d, p) (td, pe, w) = Inr (td1, pe1, w1)"
    and dist: "distinct (map fst td)"
  shows "td1 = dict_set td (PStr sheet) (PStr (str_int pe @ '' / '' @ str_int nb))
         \<and> pe1 = pe + 1
         \<and> (\<forall>q. q \<noteq> p \<longrightarrow> w_pages w1 q = w_pages w q)
         \<and> map_of (EditableTexts (w_pages w1 p)) sheet =
             (if sheet \<in> fst ` set (EditableTexts (w_pages w p)) \<or> PStr sheet = df \<or> PStr sheet = scf
              then Some (str_int pe @ '' / '' @ str_int nb) else None)
         \<and> (\<forall>name. name \<in> fst ` set (EditableTexts (w_pages w1 p)) \<longleftrightarrow>
               name \<in> fst ` set (EditableTexts (w_pages w p)) \<or> PStr name = df \<or> PStr name = scf)"
proof -
  let ?td1 = "dict_set td (PStr sheet) (PStr (str_int pe @ '' / '' @ str_int nb))"
  from step have td1: "td1 = ?td1" and pe1: "pe1 = pe + 1"
    and run: "computeEditableFields h d p ?td1 df scf w = Inr w1"
    by (auto simp: computeTechDraw_body_def Let_def split: sum.splits)
  have dist1: "distinct (map fst ?td1)"
    using dist by (rule distinct_dict_set)
  from computeEditableFields_texts [OF run dist1] obtain modified where
    look: "\<And>name. map_option PStr (map_of (EditableTexts (w_pages w1 p)) name) =
               (case ((map_of (get_EditableTexts (w_pages w p)))
                        (df \<mapsto> PStr (strftime_dmY modified),
                         scf \<mapsto> PStr (str_float h (Scale (w_pages w p))))) (PStr name) of
                  None \<Rightarrow> None
                | Some old \<Rightarrow> (case map_of ?td1 (PStr name) of None \<Rightarrow> Some old | Some v \<Rightarrow> Some v))"
    and others: "\<forall>q. q \<noteq> p \<longrightarrow> w_pages w1 q = w_pages w q"
    by blast
  have base: "map_of (get_EditableTexts (w_pages w p)) (PStr name) = None
              \<longleftrightarrow> name \<notin> fst ` set (EditableTexts (w_pages w p))" for name
    by (simp add: get_EditableTexts_def map_of_PStr_map map_of_eq_None_iff)
  have keys: "name \<in> fst ` set (EditableTexts (w_pages w1 p)) \<longleftrightarrow>
               name \<in> fst ` set (EditableTexts (w_pages w p)) \<or> PStr name = df \<or> PStr name = scf" for name
  proof -
    have "name \<in> fst ` set (EditableTexts (w_pages w1 p)) \<longleftrightarrow>
            map_option PStr (map_of (EditableTexts (w_pages w1 p)) name) \<noteq> None"
      by (simp add: map_of_eq_None_iff)
    also have "\<dots> \<longleftrightarrow> name \<in> fst ` set (EditableTexts (w_pages w p)) \<or> PStr name = df \<or> PStr name = scf"
      using base [of name] by (auto simp: look [of name] split: option.splits)
    finally show ?thesis .
  qed
  have stamp: "map_of (EditableTexts (w_pages w1 p)) sheet =
             (if sheet \<in> fst ` set (EditableTexts (w_pages w p)) \<or> PStr sheet = df \<or> PStr sheet = scf
              then Some (str_int pe @ '' / '' @ str_int nb) else None)"
  proof (cases "sheet \<in> fst ` set (EditableTexts (w_pages w p)) \<or> PStr sheet = df \<or> PStr sheet = scf")
    case True
    then have "map_option PStr (map_of (EditableTexts (w_pages w1 p)) sheet) =
                 Some (PStr (str_int pe @ '' / '' @ str_int nb))"
      using base [of sheet] by (auto simp: look [of sheet] map_of_dict_set split: option.splits)
    with True show ?thesis by auto
  next
    case False
    with keys [of sheet] have "sheet \<notin> fst ` set (EditableTexts (w_pages w1 p))" by simp
    then have "map_of (EditableTexts (w_pages w1 p)) sheet = None"
      by (simp add: map_of_eq_None_iff)
    with False show ?thesis by simp
  qed
  from td1 pe1 others stamp keys show ?thesis by blast
qed

lemma computeTechDraw_loop:
  assumes "for_loop (computeTechDraw_body h nb df scf (PStr sheet)) dl (td, pe, w) = Inr (td', pe', w')"
    and "distinct (map fst td)"
  shows "(\<forall>q. q \<notin> snd ` set dl \<longrightarrow> w_pages w' q = w_pages w q)
         \<and> (\<forall>i < length dl. snd (dl ! i) \<notin> snd ` set (drop (Suc i) dl) \<longrightarrow>
               map_of (EditableTexts (w_pages w' (snd (dl ! i)))) sheet =
                 (if sheet \<in> fst ` set (EditableTexts (w_pages w (snd (dl ! i))))
                     \<or> PStr sheet = df \<or> PStr sheet = scf
                  then Some (str_int (pe + int i) @ '' / '' @ str_int nb) else None))"
  using assms
proof (induction dl arbitrary: td pe w)
  case Nil
  then show ?case by simp
next
  case (Cons dp dl)
  obtain d p where dp: "dp = (d, p)" by (cases dp)
  from Cons.prems(1) obtain td1 pe1 w1 where
    step: "computeTechDraw_body h nb df scf (PStr sheet) (d, p) (td, pe, w) = Inr (td1, pe1, w1)"
    and rest: "for_loop (computeTechDraw_body h nb df scf (PStr sheet)) dl (td1, pe1, w1) = Inr (td', pe', w')"
    by (auto simp: dp split: sum.splits)
  from computeTechDraw_body_step [OF step Cons.prems(2)] have
    td1: "td1 = dict_set td (PStr sheet) (PStr (str_int pe @ '' / '' @ str_int nb))"
    and pe1: "pe1 = pe + 1"
    and others: "\<forall>q. q \<noteq> p \<longrightarrow> w_pages w1 q = w_pages w q"
    and stamp: "map_of (EditableTexts (w_pages w1 p)) sheet =
             (if sheet \<in> fst ` set (EditableTexts (w_pages w p)) \<or> PStr sheet = df \<or> PStr sheet = scf
              then Some (str_int pe @ '' / '' @ str_int nb) else None)"
    and keys: "\<forall>name. name \<in> fst ` set (EditableTexts (w_pages w1 p)) \<longleftrightarrow>
               name \<in> fst ` set (EditableTexts (w_pages w p)) \<or> PStr name = df \<or> PStr name = scf"
    by blast+
  have dist1: "distinct (map fst td1)"
    unfolding td1 using Cons.prems(2) by (rule distinct_dict_set)
  from Cons.IH [OF rest dist1] have
    ih1: "\<forall>q. q \<notin> snd ` set dl \<longrightarrow> w_pages w' q = w_pages w1 q"
    and ih2: "\<forall>i < length dl. snd (dl ! i) \<notin> snd ` set (drop (Suc i) dl) \<longrightarrow>
               map_of (EditableTexts (w_pages w' (snd (dl ! i)))) sheet =
                 (if sheet \<in> fst ` set (EditableTexts (w_pages w1 (snd (dl ! i))))
                     \<or> PStr sheet = df \<or> PStr sheet = scf
                  then Some (str_int (pe1 + int i) @ '' / '' @ str_int nb) else None)"
    by blast+
  have cond: "(sheet \<in> fst ` set (EditableTexts (w_pages w1 q)) \<or> PStr sheet = df \<or> PStr sheet = scf)
              \<longleftrightarrow> (sheet \<in> fst ` set (EditableTexts (w_pages w q)) \<or> PStr sheet = df \<or> PStr sheet = scf)" for q
  proof (cases "q = p")
    case True
    with keys show ?thesis by blast
  next
    case False
    with others show ?thesis by simp
  qed
  have a: "\<forall>q. q \<notin> snd ` set (dp # dl) \<longrightarrow> w_pages w' q = w_pages w q"
    using ih1 others by (auto simp: dp)
  have b: "map_of (EditableTexts (w_pages w' (snd ((dp # dl) ! i)))) sheet =
             (if sheet \<in> fst ` set (EditableTexts (w_pages w (snd ((dp # dl) ! i))))
                     \<or> PStr sheet = df \<or> PStr sheet = scf
              then Some (str_int (pe + int i) @ '' / '' @ str_int nb) else None)"
    if i: "i < length (dp # dl)"
      and last: "snd ((dp # dl) ! i) \<notin> snd ` set (drop (Suc i) (dp # dl))" for i
  proof (cases i)
    case 0
    with last have "p \<notin> snd ` set dl" by (simp add: dp)
    with ih1 have "w_pages w' p = w_pages w1 p" by blast
    with stamp 0 show ?thesis by (simp add: dp)
  next
    case (Suc j)
    with i have j: "j < length dl" by simp
    from last Suc have "snd (dl ! j) \<notin> snd ` set (drop (Suc j) dl)" by simp
    with ih2 j have "map_of (EditableTexts (w_pages w' (snd (dl ! j)))) sheet =
                 (if sheet \<in> fst ` set (EditableTexts (w_pages w1 (snd (dl ! j))))
                     \<or> PStr sheet = df \<or> PStr sheet = scf
                  then Some (str_int (pe1 + int j) @ '' / '' @ str_int nb) else None)"
      by blast
    then show ?thesis
      using Suc pe1 cond [of "snd (dl ! j)"] by (simp add: add.commute add.left_commute)
  qed
  from a b show ?case by blast
qed

lemma distinct_document_pages:
  assumes own: "\<And>d. distinct (findDrawPages (documents h d))"
    and apart: "\<And>d d'. d \<noteq> d' \<Longrightarrow>
                  set (findDrawPages (documents h d)) \<inter> set (findDrawPages (documents h d')) = {}"
  shows "distinct new \<Longrightarrow> distinct (map snd (concat (map (document_pages h) new)))"
proof (induction new)
  case Nil
  show ?case by simp
next
  case (Cons d new)
  have pg: "map snd (document_pages h d) = findDrawPages (documents h d)" for d
    by (simp add: document_pages_def comp_def)
  have "set (findDrawPages (documents h d)) \<inter> set (map snd (concat (map (document_pages h) new))) = {}"
  proof -
    have "set (map snd (concat (map (document_pages h) new))) =
            (\<Union>d' \<in> set new. set (findDrawPages (documents h d')))"
      by (induction new) (auto simp: document_pages_def image_iff)
    moreover from Cons.prems have "\<forall>d' \<in> set new. d \<noteq> d'" by auto
    ultimately show ?thesis using apart by blast
  qed
  with Cons show ?case by (simp add: pg own)
qed

lemma createTechDrawDocumentList_distinct_pages:
  assumes walk: "createTechDrawDocumentList depth h n p r treated w = Inr (ps, treated', w')"
    and own: "\<And>d. distinct (findDrawPages (documents h d))"
    and apart: "\<And>d d'. d \<noteq> d' \<Longrightarrow>
                  set (findDrawPages (documents h d)) \<inter> set (findDrawPages (documents h d')) = {}"
  shows "distinct (map snd ps)"
proof -
  from createTechDrawDocumentList_treats_new [OF walk] obtain new where
    "distinct new" and "ps = concat (map (document_pages h) new)"
    by (auto simp: treats_new_def)
  with distinct_document_pages [of h new] own apart show ?thesis by blast
qed

lemma distinct_last_occurrence:
  "distinct (map snd ps) \<Longrightarrow> i < length ps \<Longrightarrow> snd (ps ! i) \<notin> snd ` set (drop (Suc i) ps)"
proof -
  assume d: "distinct (map snd ps)" and i: "i < length ps"
  have "ps = take i ps @ ps ! i # drop (Suc i) ps"
    using i by (simp add: id_take_nth_drop)
  then have "distinct (map snd (take i ps @ ps ! i # drop (Suc i) ps))"
    using d by simp
  then show ?thesis by auto
qed

text \<open>
  C1, as amended. Take a run of \<open>_computeTechDraw\<close> that returns, on a list of \<open>n\<close>
  tuples, with the integers \<open>Stating_Page\<close> and \<open>Nb_Page_After\<close>, and the page at
  position \<open>i\<close> (counted from 0) that does not occur again later in the list. When
  the page's template has a text under the key of the sheet field, or that key is also
  the key of the date field or of the scale field, the text holds \<open>p / N\<close> afterwards,
  with \<open>p = Stating_Page + i\<close> and \<open>N = Stating_Page + n + Nb_Page_After - 1\<close>.
  Otherwise the page gets no sheet number: it has no text under that key afterwards.
  In a list the walk returns no page occurs twice, when every drawing page belongs to one
  document (\<open>createTechDrawDocumentList_distinct_pages\<close>).
\<close>

theorem computeTechDraw_sheet_numbers:
  assumes run: "computeTechDraw h doc_list standard_fields editable_fields w = Inr w'"
    and sp: "dict_get standard_fields (PStr ''Stating_Page'') = Some (PInt stating_page)"
    and na: "dict_get standard_fields (PStr ''Nb_Page_After'') = Some (PInt nb_page_after)"
    and df: "dict_get standard_fields (PStr ''Date_Field'') = Some date_field"
    and sc: "dict_get standard_fields (PStr ''Scale_Field'') = Some scale_field"
    and sf: "dict_get standard_fields (PStr ''Sheet_Field'') = Some (PStr sheet_field)"
    and dist: "distinct (map fst editable_fields)"
    and i: "i < length doc_list"
    and last: "snd (doc_list ! i) \<notin> snd ` set (drop (Suc i) doc_list)"
  shows "map_of (EditableTexts (w_pages w' (snd (doc_list ! i)))) sheet_field =
           (if sheet_field \<in> fst ` set (EditableTexts (w_pages w (snd (doc_list ! i))))
               \<or> PStr sheet_field = date_field \<or> PStr sheet_field = scale_field
            then Some (str_int (stating_page + int i) @ '' / '' @
                       str_int (stating_page + int (length doc_list) + nb_page_after - 1))
            else None)"
proof -
  from run sp na df sc sf obtain td' pe' where
    loop: "for_loop (computeTechDraw_body h (stating_page + int (length doc_list) + nb_page_after - 1)
                       date_field scale_field (PStr sheet_field))
             doc_list (editable_fields, stating_page, w) = Inr (td', pe', w')"
    by (auto simp: computeTechDraw_def Let_def split: option.splits sum.splits)
  from computeTechDraw_loop [OF loop dist] i last show ?thesis by blast
qed

subsection \<open>When the text fields pass returns\<close>

text \<open>
  \<open>_computeTechDraw\<close> returns when every document's date parses, the three field names
  are strings and the user's metadata are strings.
\<close>

lemma to_property_map_total: "str_dict d \<Longrightarrow> \<exists>m. to_property_map d = Inr m"
proof (induction d rule: to_property_map.induct)
  case 1
  show ?case by simp
next
  case (2 k v d)
  then show ?case by (auto simp: str_dict_def)
qed (simp_all add: str_dict_def)

lemma str_dict_dict_set:
  "str_dict d \<Longrightarrow> is_str k \<Longrightarrow> is_str v \<Longrightarrow> str_dict (dict_set d k v)"
  by (induction d) (auto simp: str_dict_def)

lemma str_dict_apply_templates_data:
  "str_dict td \<Longrightarrow> str_dict texts \<Longrightarrow> str_dict (apply_templates_data td texts)"
proof (induction td arbitrary: texts)
  case Nil
  then show ?case by simp
next
  case (Cons a td)
  obtain k v where a: "a = (k, v)" by (cases a)
  from Cons.prems have kv: "is_str k" "is_str v" and td: "str_dict td"
    by (auto simp: a str_dict_def)
  have "str_dict (if dict_in k texts then dict_set texts k v else texts)"
    using Cons.prems(2) kv by (simp add: str_dict_dict_set)
  with Cons.IH [OF td] show ?case by (simp add: a)
qed

lemma str_dict_get_EditableTexts: "str_dict (get_EditableTexts pg)"
  by (simp add: get_EditableTexts_def str_dict_def list_all_iff split_beta)

lemma computeEditableFields_total:
  assumes "fromisoformat h (strip_Z (LastModifiedDate (documents h doc))) = Inr modified"
    and "LastModifiedDate (documents h doc) \<noteq> []"
    and "is_str date_field" and "is_str scale_field" and "str_dict templates_data"
  shows "\<exists>w'. computeEditableFields h doc page templates_data date_field scale_field w = Inr w'"
proof -
  let ?t3 = "apply_templates_data templates_data
               (dict_set (dict_set (get_EditableTexts (w_pages w page)) date_field
                            (PStr (strftime_dmY modified)))
                  scale_field (PStr (str_float h (Scale (w_pages w page)))))"
  have "str_dict ?t3"
    using assms(3-5)
    by (intro str_dict_apply_templates_data str_dict_dict_set str_dict_get_EditableTexts) simp_all
  then obtain m where "to_property_map ?t3 = Inr m"
    using to_property_map_total by blast
  with assms(1,2) show ?thesis
    by (auto simp: computeEditableFields_def Let_def strip_Z_def split: if_splits)
qed

lemma computeTechDraw_loop_total:
  assumes "list_all (\<lambda>(d, p). LastModifiedDate (documents h d) \<noteq> []
             \<and> isl (fromisoformat h (strip_Z (LastModifiedDate (documents h d)))) = False) doc_list"
    and "is_str df" and "is_str scf" and "is_str sheet" and "str_dict td"
  shows "\<exists>r. for_loop (computeTechDraw_body h nb df scf sheet) doc_list (td, pe, w) = Inr r"
  using assms
proof (induction doc_list arbitrary: td pe w)
  case Nil
  show ?case by simp
next
  case (Cons dp doc_list)
  obtain d p where dp: "dp = (d, p)" by (cases dp)
  let ?td1 = "dict_set td sheet (PStr (str_int pe @ '' / '' @ str_int nb))"
  from Cons.prems(1) obtain modified where
    m: "fromisoformat h (strip_Z (LastModifiedDate (documents h d))) = Inr modified"
    and ne: "LastModifiedDate (documents h d) \<noteq> []"
    and rest: "list_all (\<lambda>(d, p). LastModifiedDate (documents h d) \<noteq> []
             \<and> isl (fromisoformat h (strip_Z (LastModifiedDate (documents h d)))) = False) doc_list"
    by (cases "fromisoformat h (strip_Z (LastModifiedDate (documents h d)))") (auto simp: dp)
  have td1: "str_dict ?td1"
    using Cons.prems(4,5) by (simp add: str_dict_dict_set)
  from computeEditableFields_total [OF m ne Cons.prems(2,3) td1]
  obtain w1 where w1: "computeEditableFields h d p ?td1 df scf w = Inr w1"
    by blast
  from Cons.IH [OF rest Cons.prems(2,3,4) td1] w1 show ?case
    by (simp add: dp computeTechDraw_body_def Let_def)
qed

lemma computeTechDraw_total:
  assumes "list_all (\<lambda>(d, p). LastModifiedDate (documents h d) \<noteq> []
             \<and> isl (fromisoformat h (strip_Z (LastModifiedDate (documents h d)))) = False) doc_list"
    and "dict_get standard_fields (PStr ''Stating_Page'') = Some (PInt stating_page)"
    and "dict_get standard_fields (PStr ''Nb_Page_After'') = Some (PInt nb_page_after)"
    and "dict_get standard_fields (PStr ''Date_Field'') = Some (PStr df)"
    and "dict_get standard_fields (PStr ''Scale_Field'') = Some (PStr scf)"
    and "dict_get standard_fields (PStr ''Sheet_Field'') = Some (PStr sheet)"
    and "str_dict editable_fields"
  shows "\<exists>w'. computeTechDraw h doc_list standard_fields editable_fields w = Inr w'"
proof -
  from computeTechDraw_loop_total [OF assms(1), of "PStr df" "PStr scf" "PStr sheet" editable_fields
         "stating_page + int (length doc_list) + nb_page_after - 1" stating_page w] assms(7)
  obtain r where "for_loop (computeTechDraw_body h (stating_page + int (length doc_list) + nb_page_after - 1)
                    (PStr df) (PStr scf) (PStr sheet)) doc_list (editable_fields, stating_page, w) = Inr r"
    by auto
  with assms(2-6) show ?thesis
    by (cases r) (auto simp: computeTechDraw_def Let_def)
qed

subsection \<open>The sample project, evaluated\<close>

lemmas demo_eval =
  computeEditableFields_def computeTechDraw_def computeTechDraw_body_def
  demo_host_def demo_world_def demo_page_def main_doc_def sub_doc_def
  get_EditableTexts_def Let_def dict_in_def dict_get_def strftime_dmY_def zero_pad_def
  str_int_def str_nat.simps digit_char_def emit_def strip_Z_def

theorem computeEditableFields_frame_witness:
  "\<exists>W. computeEditableFields demo_host 0 0
          [(PStr ''TITLE'', PStr ''Gearbox''), (PStr ''AUTHOR'', PStr ''didier'')]
          (PStr ''FC-DATE'') (PStr ''FC-SC'') demo_world = Inr W
     \<and> distinct (map fst [(PStr ''TITLE'', PStr ''Gearbox''), (PStr ''AUTHOR'', PStr ''didier'')])
     \<and> PStr ''AUTHOR'' \<noteq> PStr ''FC-DATE'' \<and> PStr ''AUTHOR'' \<noteq> PStr ''FC-SC''
     \<and> map_of (EditableTexts (w_pages demo_world 0)) ''AUTHOR'' = None
     \<and> map_of (EditableTexts (w_pages W 0)) ''AUTHOR'' = None
     \<and> map_of (EditableTexts (w_pages demo_world 0)) ''TITLE'' = Some []
     \<and> map_of (EditableTexts (w_pages W 0)) ''TITLE'' = Some ''Gearbox''
     \<and> map_of (EditableTexts (w_pages demo_world 0)) ''NOTE'' = Some ''keep''
     \<and> map_of (EditableTexts (w_pages W 0)) ''NOTE'' = Some ''keep''
     \<and> w_pages W 1 = w_pages demo_world 1
     \<and> w_files W = w_files demo_world"
proof -
  let ?td = "[(PStr ''TITLE'', PStr ''Gearbox''), (PStr ''AUTHOR'', PStr ''didier'')]"
  have "\<exists>W. computeEditableFields demo_host 0 0 ?td (PStr ''FC-DATE'') (PStr ''FC-SC'') demo_world = Inr W"
    by (simp add: demo_eval)
  then obtain W where
    run: "computeEditableFields demo_host 0 0 ?td (PStr ''FC-DATE'') (PStr ''FC-SC'') demo_world = Inr W"
    by blast
  have dist: "distinct (map fst ?td)" by simp
  have old: "EditableTexts (w_pages demo_world 0) = [(''FC-SH'', []), (''TITLE'', []), (''NOTE'', ''keep'')]"
    by (simp add: demo_world_def demo_page_def)
  have a: "map_of (EditableTexts (w_pages W 0)) ''AUTHOR'' = None"
    using computeEditableFields_frame [OF run dist, of "''AUTHOR''"] by (simp add: old dict_get_def)
  have t: "map_of (EditableTexts (w_pages W 0)) ''TITLE'' = Some ''Gearbox''"
    using computeEditableFields_frame [OF run dist, of "''TITLE''"] by (auto simp: old dict_get_def)
  have n: "map_of (EditableTexts (w_pages W 0)) ''NOTE'' = Some ''keep''"
    using computeEditableFields_frame [OF run dist, of "''NOTE''"] by (auto simp: old dict_get_def)
  have o: "w_pages W 1 = w_pages demo_world 1 \<and> w_files W = w_files demo_world"
    using computeEditableFields_frame [OF run dist, of "''NOTE''"] by simp
  from run a t n o show ?thesis by (simp add: old)
qed

text \<open>
  The template of the sample page has no text \<open>FC-SC\<close>. With a metadata entry under
  that key, which is the scale field, the entry is written into the page all the same.
\<close>

theorem computeEditableFields_frame_counterexample:
  "map_of (EditableTexts (w_pages demo_world 0)) ''FC-SC'' = None
   \<and> dict_get [(PStr ''FC-SC'', PStr ''1:2'')] (PStr ''FC-SC'') = Some (PStr ''1:2'')
   \<and> computeEditableFields demo_host 0 0 [(PStr ''FC-SC'', PStr ''1:2'')]
        (PStr ''FC-DATE'') (PStr ''FC-SC'') demo_world =
      Inr (emit
            (demo_world\<lparr>w_pages := (w_pages demo_world)
               (0 := demo_page\<lparr>EditableTexts :=
                  [(''FC-SH'', []), (''TITLE'', []), (''NOTE'', ''keep''),
                   (''FC-DATE'', ''07/03/2021''), (''FC-SC'', ''1:2'')]\<rparr>)\<rparr>)
            [E_SetEditableTexts 0
               [(''FC-SH'', []), (''TITLE'', []), (''NOTE'', ''keep''),
                (''FC-DATE'', ''07/03/2021''), (''FC-SC'', ''1:2'')],
             E_Recompute 0])"
  by (simp add: demo_eval)

theorem computeEditableFields_date_scale_witness:
  "\<exists>W. computeEditableFields demo_host 0 0
          [(PStr ''TITLE'', PStr ''Gearbox''), (PStr ''AUTHOR'', PStr ''didier'')]
          (PStr ''FC-DATE'') (PStr ''FC-SC'') demo_world = Inr W
     \<and> distinct (map fst [(PStr ''TITLE'', PStr ''Gearbox''), (PStr ''AUTHOR'', PStr ''didier'')])
     \<and> LastModifiedDate (documents demo_host 0) = ''2021-03-07T10:20:30Z''
     \<and> fromisoformat demo_host ''2021-03-07T10:20:30'' = Inr \<lparr>year = 2021, month = 3, day = 7\<rparr>
     \<and> map_of (EditableTexts (w_pages W 0)) ''FC-DATE'' = Some ''07/03/2021''
     \<and> Scale (w_pages demo_world 0) = 1 \<and> str_float demo_host 1 = ''1.0''
     \<and> map_of (EditableTexts (w_pages W 0)) ''FC-SC'' = Some ''1.0''"
proof -
  let ?td = "[(PStr ''TITLE'', PStr ''Gearbox''), (PStr ''AUTHOR'', PStr ''didier'')]"
  have "\<exists>W. computeEditableFields demo_host 0 0 ?td (PStr ''FC-DATE'') (PStr ''FC-SC'') demo_world = Inr W"
    by (simp add: demo_eval)
  then obtain W where
    run: "computeEditableFields demo_host 0 0 ?td (PStr ''FC-DATE'') (PStr ''FC-SC'') demo_world = Inr W"
    by blast
  have dist: "distinct (map fst ?td)" by simp
  have d: "strip_Z (LastModifiedDate (documents demo_host 0)) = ''2021-03-07T10:20:30''"
    and p: "fromisoformat demo_host ''2021-03-07T10:20:30'' = Inr \<lparr>year = 2021, month = 3, day = 7\<rparr>"
    and f: "strftime_dmY \<lparr>year = 2021, month = 3, day = 7\<rparr> = ''07/03/2021''"
    and s: "str_float demo_host (Scale (w_pages demo_world 0)) = ''1.0''"
    by (simp_all add: demo_eval)
  from computeEditableFields_date_scale [OF run dist]
  have "map_of (EditableTexts (w_pages W 0)) ''FC-DATE'' = Some ''07/03/2021''
        \<and> map_of (EditableTexts (w_pages W 0)) ''FC-SC'' = Some ''1.0''"
    by (auto simp: d p f s dict_get_def)
  with run show ?thesis
    by (simp add: demo_host_def demo_world_def demo_page_def main_doc_def)
qed

text \<open>
  With a metadata entry under the key of the date field, the page does not get the
  document's date \<open>07/03/2021\<close> but the entry.
\<close>

theorem computeEditableFields_date_scale_counterexample:
  "LastModifiedDate (documents demo_host 0) = ''2021-03-07T10:20:30Z''
   \<and> fromisoformat demo_host ''2021-03-07T10:20:30'' = Inr \<lparr>year = 2021, month = 3, day = 7\<rparr>
   \<and> strftime_dmY \<lparr>year = 2021, month = 3, day = 7\<rparr> = ''07/03/2021''
   \<and> computeEditableFields demo_host 0 0 [(PStr ''FC-DATE'', PStr ''2000'')]
        (PStr ''FC-DATE'') (PStr ''FC-SC'') demo_world =
      Inr (emit
            (demo_world\<lparr>w_pages := (w_pages demo_world)
               (0 := demo_page\<lparr>EditableTexts :=
                  [(''FC-SH'', []), (''TITLE'', []), (''NOTE'', ''keep''),
                   (''FC-DATE'', ''2000''), (''FC-SC'', ''1.0'')]\<rparr>)\<rparr>)
            [E_SetEditableTexts 0
               [(''FC-SH'', []), (''TITLE'', []), (''NOTE'', ''keep''),
                (''FC-DATE'', ''2000''), (''FC-SC'', ''1.0'')],
             E_Recompute 0])"
  by (simp add: demo_eval)

subsection \<open>The parameters of the book\<close>

lemma keys_dict_set_known: "k \<in> fst ` set d \<Longrightarrow> map fst (dict_set d k v) = map fst d"
  by (induction d) (auto simp: rev_image_eqI)

lemma complete_rows_drop:
  assumes "i < length sh"
  shows "complete_rows (drop i sh) =
           (case sh ! i of
              (Some k, Some v) \<Rightarrow> (k, v) # complete_rows (drop (Suc i) sh)
            | _ \<Rightarrow> [])"
proof -
  from assms have "drop i sh = sh ! i # drop (Suc i) sh"
    by (simp add: Cons_nth_drop_Suc)
  then show ?thesis
    by (cases "sh ! i") (auto split: option.splits)
qed

lemma read_sheet_result:
  "0 < idx \<Longrightarrow>
   \<exists>evs. read_sheet sh idx temp_dict w =
           Inr (fold (\<lambda>(k, v) d. dict_set d k v) (complete_rows (drop (idx - 1) sh)) temp_dict,
                emit w evs)
        \<and> list_all (\<lambda>e. phase e = 1) evs"
proof (induction sh idx temp_dict w rule: read_sheet.induct)
  case (1 sh idx temp_dict w)
  show ?case
  proof (cases "length sh < idx")
    case True
    then have "sheet_get sh ColA idx = Inl ValueError" by (simp add: sheet_get_def)
    moreover from True have "drop (idx - 1) sh = []" using "1.prems" by simp
    ultimately show ?thesis
      by (subst read_sheet.simps) (auto intro!: exI [of _ "[E_SheetGet ColA idx]"])
  next
    case False
    with "1.prems" have lt: "idx - 1 < length sh" by simp
    obtain a b where ab: "sh ! (idx - 1) = (a, b)" by (cases "sh ! (idx - 1)")
    note cr = complete_rows_drop [OF lt, unfolded ab]
    show ?thesis
    proof (cases a)
      case None
      with False "1.prems" ab have "sheet_get sh ColA idx = Inl ValueError"
        by (simp add: sheet_get_def)
      with None cr show ?thesis
        by (subst read_sheet.simps) (auto intro!: exI [of _ "[E_SheetGet ColA idx]"])
    next
      case (Some key)
      with False "1.prems" ab have ga: "sheet_get sh ColA idx = Inr key"
        by (simp add: sheet_get_def)
      show ?thesis
      proof (cases b)
        case None
        with False "1.prems" ab have "sheet_get sh ColB idx = Inl ValueError"
          by (simp add: sheet_get_def)
        with None Some ga cr show ?thesis
          by (subst read_sheet.simps)
             (auto intro!: exI [of _ "[E_SheetGet ColA idx, E_SheetGet ColB idx]"])
      next
        case (Some val)
        with False "1.prems" ab have gb: "sheet_get sh ColB idx = Inr val"
          by (simp add: sheet_get_def)
        from "1.IH" [OF ga gb] obtain evs where
          ih: "read_sheet sh (idx + 1) (dict_set temp_dict key val)
                 (emit w [E_SheetGet ColA idx, E_SheetGet ColB idx]) =
               Inr (fold (\<lambda>(k, v) d. dict_set d k v) (complete_rows (drop (idx + 1 - 1) sh))
                      (dict_set temp_dict key val),
                    emit (emit w [E_SheetGet ColA idx, E_SheetGet ColB idx]) evs)"
          and ph: "list_all (\<lambda>e. phase e = 1) evs"
          by auto
        have "Suc (idx - 1) = idx" using "1.prems" by simp
        with cr \<open>a = Some key\<close> Some
        have cr': "complete_rows (drop (idx - 1) sh) = (key, val) # complete_rows (drop idx sh)"
          by simp
        show ?thesis
          apply (subst read_sheet.simps)
          apply (rule exI [of _ "[E_SheetGet ColA idx, E_SheetGet ColB idx] @ evs"])
          using ih ph ga gb cr'
          apply (simp add: emit_def)
          done
      qed
    qed
  qed
qed

lemma map_of_fold_dict_set:
  "map_of (fold (\<lambda>(k, v) d. dict_set d k v) rows d) k =
     (case map_of (rev rows) k of None \<Rightarrow> map_of d k | Some v \<Rightarrow> Some v)"
proof (induction rows arbitrary: d)
  case Nil
  show ?case by simp
next
  case (Cons a rows)
  obtain k' v' where a: "a = (k', v')" by (cases a)
  show ?case
    by (simp add: a Cons.IH map_of_dict_set map_add_def split: option.splits)
qed

lemma distinct_fold_dict_set:
  "distinct (map fst d) \<Longrightarrow> distinct (map fst (fold (\<lambda>(k, v) d. dict_set d k v) rows d))"
proof (induction rows arbitrary: d)
  case Nil
  then show ?case by simp
next
  case (Cons a rows)
  obtain k' v' where a: "a = (k', v')" by (cases a)
  from Cons.prems have "distinct (map fst (dict_set d k' v'))" by (rule distinct_dict_set)
  from Cons.IH [OF this] show ?case by (simp add: a)
qed

lemma py_int_error: "py_int h v = Inl e \<Longrightarrow> e = ValueError"
  by (auto simp: py_int_def split: pyval.splits option.splits)

lemma set_ret_val_result:
  assumes "distinct (map fst items)"
    and "PStr ''Stating_Page'' \<in> fst ` set sf" and "PStr ''Nb_Page_After'' \<in> fst ` set sf"
  shows "\<exists>sf' ef'. set_ret_val h items sf ef = Inr (sf', ef')
     \<and> (\<forall>k. map_of sf' k =
            (if k \<in> set STANDARDS_FIELDS_NAME
             then (case map_of items k of
                     None \<Rightarrow> map_of sf k
                   | Some v \<Rightarrow> Some (standard_value h k (the (map_of sf k)) (Some v)))
             else map_of sf k))
     \<and> (\<forall>k. map_of ef' k =
            (if k \<in> set STANDARDS_FIELDS_NAME then map_of ef k
             else (case map_of items k of None \<Rightarrow> map_of ef k | Some v \<Rightarrow> Some v)))
     \<and> fst ` set sf' = fst ` set sf \<union> (fst ` set items \<inter> set STANDARDS_FIELDS_NAME)
     \<and> (fst ` set items \<inter> set STANDARDS_FIELDS_NAME \<subseteq> fst ` set sf \<longrightarrow> map fst sf' = map fst sf)
     \<and> (distinct (map fst ef) \<longrightarrow> distinct (map fst ef'))"
  using assms
proof (induction items arbitrary: sf ef)
  case Nil
  show ?case by simp
next
  case (Cons a items)
  obtain k v where a: "a = (k, v)" by (cases a)
  from Cons.prems(1) have dist: "distinct (map fst items)" and nk: "map_of items k = None"
    by (auto simp: a map_of_eq_None_iff)
  show ?case
  proof (cases "k \<in> set STANDARDS_FIELDS_NAME")
    case False
    from Cons.IH [OF dist Cons.prems(2,3), of "dict_set ef k v"]
    obtain sf' ef' where
      r: "set_ret_val h items sf (dict_set ef k v) = Inr (sf', ef')"
      and s: "\<forall>k'. map_of sf' k' =
            (if k' \<in> set STANDARDS_FIELDS_NAME
             then (case map_of items k' of
                     None \<Rightarrow> map_of sf k'
                   | Some v \<Rightarrow> Some (standard_value h k' (the (map_of sf k')) (Some v)))
             else map_of sf k')"
      and e: "\<forall>k'. map_of ef' k' =
            (if k' \<in> set STANDARDS_FIELDS_NAME then map_of (dict_set ef k v) k'
             else (case map_of items k' of None \<Rightarrow> map_of (dict_set ef k v) k' | Some v \<Rightarrow> Some v))"
      and ks: "fst ` set sf' = fst ` set sf \<union> (fst ` set items \<inter> set STANDARDS_FIELDS_NAME)"
      and ko: "fst ` set items \<inter> set STANDARDS_FIELDS_NAME \<subseteq> fst ` set sf \<longrightarrow> map fst sf' = map fst sf"
      and de: "distinct (map fst (dict_set ef k v)) \<longrightarrow> distinct (map fst ef')"
      by blast
    show ?thesis
      apply (rule exI [of _ sf'])
      apply (rule exI [of _ ef'])
      using False r s e ks ko de nk
      apply (auto simp: a map_of_dict_set distinct_dict_set split: option.splits)
      done
  next
    case True
    define nv where "nv = standard_value h k (the (map_of sf k)) (Some v)"
    have step: "set_ret_val h ((k, v) # items) sf ef = set_ret_val h items (dict_set sf k nv) ef"
    proof (cases "k = PStr ''Stating_Page'' \<or> k = PStr ''Nb_Page_After''")
      case False
      with True show ?thesis by (simp add: nv_def standard_value_def)
    next
      case int_key: True
      with Cons.prems(2,3) obtain d where d: "map_of sf k = Some d"
        by (metis domD dom_map_of_conv_image_fst)
      show ?thesis
      proof (cases "py_int h v")
        case (Inr i)
        with True int_key show ?thesis by (auto simp: nv_def standard_value_def)
      next
        case (Inl e)
        then have "e = ValueError" by (rule py_int_error)
        with Inl True int_key d show ?thesis
          by (auto simp: nv_def standard_value_def dict_get_def)
      qed
    qed
    have p2: "PStr ''Stating_Page'' \<in> fst ` set (dict_set sf k nv)"
      and p3: "PStr ''Nb_Page_After'' \<in> fst ` set (dict_set sf k nv)"
      using Cons.prems(2,3) by (simp_all add: keys_dict_set)
    from Cons.IH [OF dist p2 p3, of ef]
    obtain sf' ef' where
      r: "set_ret_val h items (dict_set sf k nv) ef = Inr (sf', ef')"
      and s: "\<forall>k'. map_of sf' k' =
            (if k' \<in> set STANDARDS_FIELDS_NAME
             then (case map_of items k' of
                     None \<Rightarrow> map_of (dict_set sf k nv) k'
                   | Some v \<Rightarrow> Some (standard_value h k' (the (map_of (dict_set sf k nv) k')) (Some v)))
             else map_of (dict_set sf k nv) k')"
      and e: "\<forall>k'. map_of ef' k' =
            (if k' \<in> set STANDARDS_FIELDS_NAME then map_of ef k'
             else (case map_of items k' of None \<Rightarrow> map_of ef k' | Some v \<Rightarrow> Some v))"
      and ks: "fst ` set sf' = fst ` set (dict_set sf k nv) \<union> (fst ` set items \<inter> set STANDARDS_FIELDS_NAME)"
      and ko: "fst ` set items \<inter> set STANDARDS_FIELDS_NAME \<subseteq> fst ` set (dict_set sf k nv)
               \<longrightarrow> map fst sf' = map fst (dict_set sf k nv)"
      and de: "distinct (map fst ef) \<longrightarrow> distinct (map fst ef')"
      by blast
    have s': "\<forall>k'. map_of sf' k' =
            (if k' \<in> set STANDARDS_FIELDS_NAME
             then (case map_of ((k, v) # items) k' of
                     None \<Rightarrow> map_of sf k'
                   | Some v \<Rightarrow> Some (standard_value h k' (the (map_of sf k')) (Some v)))
             else map_of sf k')"
      using s nk True by (auto simp: map_of_dict_set nv_def split: option.splits)
    have e': "\<forall>k'. map_of ef' k' =
            (if k' \<in> set STANDARDS_FIELDS_NAME then map_of ef k'
             else (case map_of ((k, v) # items) k' of None \<Rightarrow> map_of ef k' | Some v \<Rightarrow> Some v))"
      using e True by auto
    have ks': "fst ` set sf' = fst ` set sf \<union> (fst ` set ((k, v) # items) \<inter> set STANDARDS_FIELDS_NAME)"
      using ks True by (auto simp: keys_dict_set)
    have ko': "fst ` set ((k, v) # items) \<inter> set STANDARDS_FIELDS_NAME \<subseteq> fst ` set sf
               \<longrightarrow> map fst sf' = map fst sf"
    proof
      assume sub: "fst ` set ((k, v) # items) \<inter> set STANDARDS_FIELDS_NAME \<subseteq> fst ` set sf"
      with True have kin: "k \<in> fst ` set sf" by auto
      then have same: "map fst (dict_set sf k nv) = map fst sf" by (rule keys_dict_set_known)
      from sub have "fst ` set items \<inter> set STANDARDS_FIELDS_NAME \<subseteq> fst ` set (dict_set sf k nv)"
        by (auto simp: keys_dict_set)
      with ko same show "map fst sf' = map fst sf" by simp
    qed
    show ?thesis
      apply (rule exI [of _ sf'])
      apply (rule exI [of _ ef'])
      using r s' e' ks' ko' de step
      apply (simp add: a)
      done
  qed
qed

lemma default_standard_fields_eq:
  "default_standard_fields =
     [(PStr ''Stating_Page'', PInt 1), (PStr ''Nb_Page_After'', PInt 0),
      (PStr ''Date_Field'', PStr ''FC-DATE''), (PStr ''Scale_Field'', PStr ''FC-SC''),
      (PStr ''Sheet_Field'', PStr ''FC-SH'')]"
  by (simp add: default_standard_fields_def)

lemma getBookParameters_result:
  "\<exists>sf ef evs. getBookParameters h doc standard_fields0 editable_fields0 w = Inr ((sf, ef), emit w evs)
     \<and> list_all (\<lambda>e. phase e = 1) evs \<and> evs \<noteq> []
     \<and> map fst sf = STANDARDS_FIELDS_NAME
     \<and> (\<forall>k dflt. map_of default_standard_fields k = Some dflt \<longrightarrow>
           map_of sf k = Some (standard_value h k dflt (last_row (rows_read h doc) k)))
     \<and> (\<forall>k. map_of ef k =
           (if k \<in> set STANDARDS_FIELDS_NAME then None else last_row (rows_read h doc) k))
     \<and> distinct (map fst ef)
     \<and> (findSheets (documents h doc) INFO_SPREADSHEET_LABEL = [] \<longrightarrow>
          sf = default_standard_fields \<and> ef = [])"
proof (cases "findSheets (documents h doc) INFO_SPREADSHEET_LABEL")
  case Nil
  show ?thesis
    apply (rule exI [of _ default_standard_fields])
    apply (rule exI [of _ "[]"])
    apply (rule exI [of _ "[E_FindSheets doc INFO_SPREADSHEET_LABEL]"])
    using Nil
    apply (simp add: getBookParameters_def rows_read_def last_row_def standard_value_def)
    apply (simp add: default_standard_fields_eq STANDARDS_FIELDS_NAME_def)
    done
next
  case (Cons sheet0 others)
  let ?rows = "complete_rows sheet0"
  let ?temp = "fold (\<lambda>(k, v) d. dict_set d k v) ?rows []"
  have rows: "rows_read h doc = ?rows" by (simp add: rows_read_def Cons)
  from read_sheet_result [of 1 sheet0 "[]" "emit w [E_FindSheets doc INFO_SPREADSHEET_LABEL]"]
  obtain evs where
    rd: "read_sheet sheet0 1 [] (emit w [E_FindSheets doc INFO_SPREADSHEET_LABEL]) =
           Inr (?temp, emit (emit w [E_FindSheets doc INFO_SPREADSHEET_LABEL]) evs)"
    and ph: "list_all (\<lambda>e. phase e = 1) evs"
    by auto
  have dt: "distinct (map fst ?temp)" by (rule distinct_fold_dict_set) simp
  have lk: "map_of ?temp k = last_row ?rows k" for k
    by (simp add: map_of_fold_dict_set last_row_def split: option.splits)
  have k1: "PStr ''Stating_Page'' \<in> fst ` set default_standard_fields"
    and k2: "PStr ''Nb_Page_After'' \<in> fst ` set default_standard_fields"
    by (simp_all add: default_standard_fields_eq)
  have keys: "map fst default_standard_fields = STANDARDS_FIELDS_NAME"
    by (simp add: default_standard_fields_eq STANDARDS_FIELDS_NAME_def)
  from set_ret_val_result [OF dt k1 k2, of h "[]"]
  obtain sf ef where
    r: "set_ret_val h ?temp default_standard_fields [] = Inr (sf, ef)"
    and s: "\<forall>k. map_of sf k =
            (if k \<in> set STANDARDS_FIELDS_NAME
             then (case map_of ?temp k of
                     None \<Rightarrow> map_of default_standard_fields k
                   | Some v \<Rightarrow> Some (standard_value h k (the (map_of default_standard_fields k)) (Some v)))
             else map_of default_standard_fields k)"
    and e: "\<forall>k. map_of ef k =
            (if k \<in> set STANDARDS_FIELDS_NAME then map_of [] k
             else (case map_of ?temp k of None \<Rightarrow> map_of [] k | Some v \<Rightarrow> Some v))"
    and ko: "fst ` set ?temp \<inter> set STANDARDS_FIELDS_NAME \<subseteq> fst ` set default_standard_fields
             \<longrightarrow> map fst sf = map fst default_standard_fields"
    and de: "distinct (map fst ([] :: (pyval, pyval) dict)) \<longrightarrow> distinct (map fst ef)"
    by blast
  have "set STANDARDS_FIELDS_NAME = fst ` set default_standard_fields"
    using keys by (metis list.set_map)
  with ko keys have a: "map fst sf = STANDARDS_FIELDS_NAME" by auto
  have b: "map_of sf k = Some (standard_value h k dflt (last_row (rows_read h doc) k))"
    if d: "map_of default_standard_fields k = Some dflt" for k dflt
  proof -
    from d have "k \<in> fst ` set default_standard_fields"
      by (metis domI dom_map_of_conv_image_fst)
    with keys have "k \<in> set STANDARDS_FIELDS_NAME" by (metis list.set_map)
    with s d show ?thesis
      by (auto simp: lk rows standard_value_def split: option.splits)
  qed
  have c: "map_of ef k = (if k \<in> set STANDARDS_FIELDS_NAME then None else last_row (rows_read h doc) k)" for k
    using e by (auto simp: lk rows split: option.splits)
  show ?thesis
    apply (rule exI [of _ sf])
    apply (rule exI [of _ ef])
    apply (rule exI [of _ "E_FindSheets doc INFO_SPREADSHEET_LABEL # evs"])
    using rd r ph a b c de Cons
    apply (simp add: getBookParameters_def emit_def)
    done
qed

text \<open>
  C8, as amended. \<open>_getBookParameters\<close> returns whatever the two dictionaries
  held. \<open>standard_fields\<close> then has exactly the five keys, each with its default
  (1, 0, \<open>FC-DATE\<close>, \<open>FC-SC\<close>, \<open>FC-SH\<close>) or the value of the last row read that has
  the key; for \<open>Stating_Page\<close> and \<open>Nb_Page_After\<close> the value is converted with
  \<open>int\<close>, and the default stands when the conversion raises \<open>ValueError\<close>.
  \<open>editable_fields\<close> holds the rows read whose key is none of the five, the last row
  of a key winning. The rows read are those of the first sheet labelled \<open>#TECHINFO#\<close>
  from row 1 up to the first row with an empty cell A or B: later rows are not read.
  Without such a sheet the defaults stand and \<open>editable_fields\<close> is empty.
\<close>

theorem getBookParameters_fields:
  "\<exists>sf ef w'. getBookParameters h doc standard_fields0 editable_fields0 w = Inr ((sf, ef), w')
     \<and> map fst sf = STANDARDS_FIELDS_NAME
     \<and> dict_get sf (PStr ''Stating_Page'') =
         Some (standard_value h (PStr ''Stating_Page'') (PInt 1)
                 (last_row (rows_read h doc) (PStr ''Stating_Page'')))
     \<and> dict_get sf (PStr ''Nb_Page_After'') =
         Some (standard_value h (PStr ''Nb_Page_After'') (PInt 0)
                 (last_row (rows_read h doc) (PStr ''Nb_Page_After'')))
     \<and> dict_get sf (PStr ''Date_Field'') =
         Some (standard_value h (PStr ''Date_Field'') (PStr ''FC-DATE'')
                 (last_row (rows_read h doc) (PStr ''Date_Field'')))
     \<and> dict_get sf (PStr ''Scale_Field'') =
         Some (standard_value h (PStr ''Scale_Field'') (PStr ''FC-SC'')
                 (last_row (rows_read h doc) (PStr ''Scale_Field'')))
     \<and> dict_get sf (PStr ''Sheet_Field'') =
         Some (standard_value h (PStr ''Sheet_Field'') (PStr ''FC-SH'')
                 (last_row (rows_read h doc) (PStr ''Sheet_Field'')))
     \<and> (\<forall>k. dict_get ef k =
           (if k \<in> set STANDARDS_FIELDS_NAME then None else last_row (rows_read h doc) k))
     \<and> distinct (map fst ef)
     \<and> (findSheets (documents h doc) INFO_SPREADSHEET_LABEL = [] \<longrightarrow>
          sf = default_standard_fields \<and> ef = [])"
proof -
  from getBookParameters_result [of h doc standard_fields0 editable_fields0 w]
  obtain sf ef evs where
    r: "getBookParameters h doc standard_fields0 editable_fields0 w = Inr ((sf, ef), emit w evs)"
    and a: "map fst sf = STANDARDS_FIELDS_NAME"
    and b: "\<And>k dflt. map_of default_standard_fields k = Some dflt \<Longrightarrow>
           map_of sf k = Some (standard_value h k dflt (last_row (rows_read h doc) k))"
    and c: "\<forall>k. map_of ef k =
           (if k \<in> set STANDARDS_FIELDS_NAME then None else last_row (rows_read h doc) k)"
    and d: "distinct (map fst ef)"
    and n: "findSheets (documents h doc) INFO_SPREADSHEET_LABEL = [] \<longrightarrow>
          sf = default_standard_fields \<and> ef = []"
    by blast
  show ?thesis
    apply (rule exI [of _ sf])
    apply (rule exI [of _ ef])
    apply (rule exI [of _ "emit w evs"])
    using r a c d n
      b [of "PStr ''Stating_Page''" "PInt 1"] b [of "PStr ''Nb_Page_After''" "PInt 0"]
      b [of "PStr ''Date_Field''" "PStr ''FC-DATE''"] b [of "PStr ''Scale_Field''" "PStr ''FC-SC''"]
      b [of "PStr ''Sheet_Field''" "PStr ''FC-SH''"]
    apply (simp add: dict_get_def default_standard_fields_eq)
    done
qed

lemmas sheet_eval =
  getBookParameters_def read_sheet.simps sheet_get_def default_standard_fields_eq
  STANDARDS_FIELDS_NAME_def INFO_SPREADSHEET_LABEL_def py_int_def dict_get_def
  demo_host_def main_doc_def sub_doc_def demo_sheet_def emit_def Let_def

text \<open>
  Row 5 of the sample sheet has the key \<open>AUTHOR\<close>, which is none of the five, and
  follows the empty row 4: it does not reach \<open>editable_fields\<close>.
\<close>

theorem getBookParameters_fields_counterexample:
  "(Some (PStr ''AUTHOR''), Some (PStr ''didier'')) \<in> set demo_sheet
   \<and> PStr ''AUTHOR'' \<notin> set STANDARDS_FIELDS_NAME
   \<and> findSheets (documents demo_host 0) INFO_SPREADSHEET_LABEL = [demo_sheet]
   \<and> getBookParameters demo_host 0 [] [] demo_world =
       Inr (([(PStr ''Stating_Page'', PInt 3), (PStr ''Nb_Page_After'', PInt 0),
              (PStr ''Date_Field'', PStr ''FC-DATE''), (PStr ''Scale_Field'', PStr ''FC-SC''),
              (PStr ''Sheet_Field'', PStr ''FC-SH'')],
             [(PStr ''TITLE'', PStr ''Gearbox'')]),
            emit demo_world
              [E_FindSheets 0 ''#TECHINFO#'', E_SheetGet ColA 1, E_SheetGet ColB 1,
               E_SheetGet ColA 2, E_SheetGet ColB 2, E_SheetGet ColA 3, E_SheetGet ColB 3,
               E_SheetGet ColA 4])"
  by (simp add: sheet_eval)

theorem getBookParameters_fields_witness:
  "rows_read demo_host 0 =
     [(PStr ''Stating_Page'', PStr ''3''), (PStr ''Nb_Page_After'', PStr ''many''),
      (PStr ''TITLE'', PStr ''Gearbox'')]
   \<and> int_of_str demo_host ''3'' = Some 3 \<and> int_of_str demo_host ''many'' = None
   \<and> (\<exists>sf ef w'. getBookParameters demo_host 0 [(PStr ''junk'', PInt 7)] [(PStr ''junk'', PInt 7)]
                    demo_world = Inr ((sf, ef), w')
         \<and> map fst sf = STANDARDS_FIELDS_NAME
         \<and> dict_get sf (PStr ''Stating_Page'') = Some (PInt 3)
         \<and> dict_get sf (PStr ''Nb_Page_After'') = Some (PInt 0)
         \<and> dict_get sf (PStr ''Date_Field'') = Some (PStr ''FC-DATE'')
         \<and> dict_get ef (PStr ''TITLE'') = Some (PStr ''Gearbox'')
         \<and> dict_get ef (PStr ''Stating_Page'') = None
         \<and> dict_get ef (PStr ''junk'') = None)
   \<and> findSheets (documents demo_host 1) INFO_SPREADSHEET_LABEL = []
   \<and> (\<exists>w'. getBookParameters demo_host 1 [(PStr ''junk'', PInt 7)] [(PStr ''junk'', PInt 7)]
              demo_world = Inr ((default_standard_fields, []), w'))"
proof -
  have rows: "rows_read demo_host 0 =
     [(PStr ''Stating_Page'', PStr ''3''), (PStr ''Nb_Page_After'', PStr ''many''),
      (PStr ''TITLE'', PStr ''Gearbox'')]"
    by (simp add: rows_read_def demo_host_def main_doc_def demo_sheet_def INFO_SPREADSHEET_LABEL_def)
  have ints: "int_of_str demo_host ''3'' = Some 3" "int_of_str demo_host ''many'' = None"
    by (simp_all add: demo_host_def)
  have none: "findSheets (documents demo_host 1) INFO_SPREADSHEET_LABEL = []"
    by (simp add: demo_host_def sub_doc_def)
  have a: "\<exists>sf ef w'. getBookParameters demo_host 0 [(PStr ''junk'', PInt 7)] [(PStr ''junk'', PInt 7)]
                    demo_world = Inr ((sf, ef), w')
         \<and> map fst sf = STANDARDS_FIELDS_NAME
         \<and> dict_get sf (PStr ''Stating_Page'') = Some (PInt 3)
         \<and> dict_get sf (PStr ''Nb_Page_After'') = Some (PInt 0)
         \<and> dict_get sf (PStr ''Date_Field'') = Some (PStr ''FC-DATE'')
         \<and> dict_get ef (PStr ''TITLE'') = Some (PStr ''Gearbox'')
         \<and> dict_get ef (PStr ''Stating_Page'') = None
         \<and> dict_get ef (PStr ''junk'') = None"
  proof -
    from getBookParameters_fields [of demo_host 0 "[(PStr ''junk'', PInt 7)]" "[(PStr ''junk'', PInt 7)]" demo_world]
    obtain sf ef w' where
      r: "getBookParameters demo_host 0 [(PStr ''junk'', PInt 7)] [(PStr ''junk'', PInt 7)]
            demo_world = Inr ((sf, ef), w')"
      and k: "map fst sf = STANDARDS_FIELDS_NAME"
      and s1: "dict_get sf (PStr ''Stating_Page'') =
         Some (standard_value demo_host (PStr ''Stating_Page'') (PInt 1)
                 (last_row (rows_read demo_host 0) (PStr ''Stating_Page'')))"
      and s2: "dict_get sf (PStr ''Nb_Page_After'') =
         Some (standard_value demo_host (PStr ''Nb_Page_After'') (PInt 0)
                 (last_row (rows_read demo_host 0) (PStr ''Nb_Page_After'')))"
      and s3: "dict_get sf (PStr ''Date_Field'') =
         Some (standard_value demo_host (PStr ''Date_Field'') (PStr ''FC-DATE'')
                 (last_row (rows_read demo_host 0) (PStr ''Date_Field'')))"
      and e: "\<And>k. dict_get ef k =
           (if k \<in> set STANDARDS_FIELDS_NAME then None else last_row (rows_read demo_host 0) k)"
      by blast
    have "dict_get sf (PStr ''Stating_Page'') = Some (PInt 3)"
      and "dict_get sf (PStr ''Nb_Page_After'') = Some (PInt 0)"
      and "dict_get sf (PStr ''Date_Field'') = Some (PStr ''FC-DATE'')"
      using s1 s2 s3 by (simp_all add: rows ints last_row_def standard_value_def py_int_def)
    moreover have "dict_get ef (PStr ''TITLE'') = Some (PStr ''Gearbox'')"
      and "dict_get ef (PStr ''Stating_Page'') = None"
      and "dict_get ef (PStr ''junk'') = None"
      using e [of "PStr ''TITLE''"] e [of "PStr ''Stating_Page''"] e [of "PStr ''junk''"]
      by (simp_all add: rows last_row_def STANDARDS_FIELDS_NAME_def)
    ultimately show ?thesis using r k by blast
  qed
  have b: "\<exists>w'. getBookParameters demo_host 1 [(PStr ''junk'', PInt 7)] [(PStr ''junk'', PInt 7)]
              demo_world = Inr ((default_standard_fields, []), w')"
    using getBookParameters_fields [of demo_host 1 "[(PStr ''junk'', PInt 7)]" "[(PStr ''junk'', PInt 7)]" demo_world]
          none
    by auto
  from rows ints none a b show ?thesis by blast
qed

subsection \<open>The events of each step\<close>

















theorem createPDFFile_book_witness:
  "\<exists>W evs. createPDFFile demo_host 0 [(0, 0), (1, 2)] ''/out/book.pdf'' demo_world = Inr W
     \<and> w_files W ''/out/book.pdf'' =
         Some [(0, [(''FC-SH'', []), (''TITLE'', []), (''NOTE'', ''keep'')]),
               (2, [(''FC-SH'', []), (''TITLE'', []), (''NOTE'', ''keep'')])]
     \<and> w_trace W = w_trace demo_world @ evs @ [E_WriteFile ''/out/book.pdf'']
     \<and> List.map_filter exported evs = [(0, ''/tmp/Page1.pdf''), (2, ''/tmp/Page2.pdf'')]
     \<and> List.map_filter appended evs = [''/tmp/Page1.pdf'', ''/tmp/Page2.pdf'']
     \<and> List.map_filter written evs = []"
  using createPDFFile_book [of demo_host 0 "[(0, 0), (1, 2)]" "''/out/book.pdf''" demo_world]
  by (simp add: temp_pdf_def demo_host_def demo_world_def demo_page_def str_int_def
        str_nat.simps digit_char_def)

subsection \<open>Sheet numbers on the sample project\<close>

text \<open>
  The walk over a project of one document returns its one page. The template of that
  page has no text \<open>FC-SH\<close>, and the page has none after \<open>_computeTechDraw\<close>, where
  the sheet number \<open>1 / 1\<close> would stand.
\<close>

theorem computeTechDraw_sheet_numbers_counterexample:
  "createTechDrawDocumentList 1 solo_host ''main'' ''/p'' True [] bare_world =
     Inr ([(0, 0)], [0], emit bare_world [E_OpenDocument ''/p/main'', E_ReadA2p ''/p/main''])
   \<and> computeTechDraw solo_host [(0, 0)] default_standard_fields [] bare_world =
       Inr (emit
             (bare_world\<lparr>w_pages := (w_pages bare_world)
                (0 := bare_page\<lparr>EditableTexts :=
                   [(''TITLE'', []), (''FC-DATE'', ''07/03/2021''), (''FC-SC'', ''1.0'')]\<rparr>)\<rparr>)
             [E_SetEditableTexts 0
                [(''TITLE'', []), (''FC-DATE'', ''07/03/2021''), (''FC-SC'', ''1.0'')],
              E_Recompute 0])
   \<and> map_of [(''TITLE'', []), (''FC-DATE'', ''07/03/2021''), (''FC-SC'', ''1.0'')] ''FC-SH'' = None
   \<and> dict_get default_standard_fields (PStr ''Sheet_Field'') = Some (PStr ''FC-SH'')
   \<and> str_int (1 + 0) @ '' / '' @ str_int (1 + 1 + 0 - 1) = ''1 / 1''"
  by (simp add: demo_eval default_standard_fields_eq solo_host_def bare_world_def bare_page_def
        getDocumentTechDraw_def)

theorem computeTechDraw_sheet_numbers_witness:
  "(\<exists>W. computeTechDraw demo_host [(0, 0), (0, 1), (1, 2)]
          [(PStr ''Stating_Page'', PInt 3), (PStr ''Nb_Page_After'', PInt 0),
           (PStr ''Date_Field'', PStr ''FC-DATE''), (PStr ''Scale_Field'', PStr ''FC-SC''),
           (PStr ''Sheet_Field'', PStr ''FC-SH'')]
          [(PStr ''TITLE'', PStr ''Gearbox'')] demo_world = Inr W
     \<and> map_of (EditableTexts (w_pages W 0)) ''FC-SH'' = Some ''3 / 5''
     \<and> map_of (EditableTexts (w_pages W 1)) ''FC-SH'' = Some ''4 / 5''
     \<and> map_of (EditableTexts (w_pages W 2)) ''FC-SH'' = Some ''5 / 5'')
   \<and> (\<exists>W. computeTechDraw demo_host [(0, 0), (0, 1), (1, 2)]
          [(PStr ''Stating_Page'', PInt 3), (PStr ''Nb_Page_After'', PInt 0),
           (PStr ''Date_Field'', PStr ''FC-DATE''), (PStr ''Scale_Field'', PStr ''FC-SC''),
           (PStr ''Sheet_Field'', PStr ''FC-SH'')]
          [(PStr ''TITLE'', PStr ''Gearbox'')] bare_world = Inr W
     \<and> map_of (EditableTexts (w_pages W 2)) ''FC-SH'' = None)
   \<and> distinct (map fst [(PStr ''TITLE'', PStr ''Gearbox'')])
   \<and> (2::nat) < length [(0::nat, 0::nat), (0, 1), (1, 2)]
   \<and> snd ([(0::nat, 0::nat), (0, 1), (1, 2)] ! 2) \<notin> snd ` set (drop (Suc 2) [(0::nat, 0::nat), (0, 1), (1, 2)])
   \<and> ''FC-SH'' \<in> fst ` set (EditableTexts (w_pages demo_world 2))
   \<and> ''FC-SH'' \<notin> fst ` set (EditableTexts (w_pages bare_world 2))"
proof -
  let ?dl = "[(0::nat, 0::nat), (0, 1), (1, 2)]"
  let ?sf = "[(PStr ''Stating_Page'', PInt 3), (PStr ''Nb_Page_After'', PInt 0),
           (PStr ''Date_Field'', PStr ''FC-DATE''), (PStr ''Scale_Field'', PStr ''FC-SC''),
           (PStr ''Sheet_Field'', PStr ''FC-SH'')]"
  let ?ef = "[(PStr ''TITLE'', PStr ''Gearbox'')]"
  have sp: "dict_get ?sf (PStr ''Stating_Page'') = Some (PInt 3)"
    and na: "dict_get ?sf (PStr ''Nb_Page_After'') = Some (PInt 0)"
    and df: "dict_get ?sf (PStr ''Date_Field'') = Some (PStr ''FC-DATE'')"
    and sc: "dict_get ?sf (PStr ''Scale_Field'') = Some (PStr ''FC-SC'')"
    and sh: "dict_get ?sf (PStr ''Sheet_Field'') = Some (PStr ''FC-SH'')"
    by (simp_all add: dict_get_def)
  have dates: "list_all (\<lambda>(d, p). LastModifiedDate (documents demo_host d) \<noteq> []
             \<and> isl (fromisoformat demo_host (strip_Z (LastModifiedDate (documents demo_host d)))) = False) ?dl"
    by (simp add: demo_host_def main_doc_def sub_doc_def strip_Z_def)
  have strs: "str_dict ?ef" by (simp add: str_dict_def)
  have dist: "distinct (map fst ?ef)" by simp
  have l0: "(0::nat) < length ?dl" "snd (?dl ! 0) \<notin> snd ` set (drop (Suc 0) ?dl)"
    and l1: "(1::nat) < length ?dl" "snd (?dl ! 1) \<notin> snd ` set (drop (Suc 1) ?dl)"
    and l2: "(2::nat) < length ?dl" "snd (?dl ! 2) \<notin> snd ` set (drop (Suc 2) ?dl)"
    by simp_all
  have has: "''FC-SH'' \<in> fst ` set (EditableTexts (w_pages demo_world p))" for p
    by (simp add: demo_world_def demo_page_def)
  have hasnt: "''FC-SH'' \<notin> fst ` set (EditableTexts (w_pages bare_world p))" for p
    by (simp add: bare_world_def bare_page_def)
  have s: "str_int 3 = ''3''" "str_int 4 = ''4''" "str_int 5 = ''5''"
    by (simp_all add: str_int_def str_nat.simps digit_char_def)
  from computeTechDraw_total [OF dates sp na df sc sh strs, of demo_world]
  obtain W where run: "computeTechDraw demo_host ?dl ?sf ?ef demo_world = Inr W"
    by blast
  from computeTechDraw_total [OF dates sp na df sc sh strs, of bare_world]
  obtain V where runb: "computeTechDraw demo_host ?dl ?sf ?ef bare_world = Inr V"
    by blast
  have "map_of (EditableTexts (w_pages W (snd (?dl ! 0)))) ''FC-SH'' = Some ''3 / 5''"
    using computeTechDraw_sheet_numbers [OF run sp na df sc sh dist l0] has s by simp
  moreover have "map_of (EditableTexts (w_pages W (snd (?dl ! 1)))) ''FC-SH'' = Some ''4 / 5''"
    using computeTechDraw_sheet_numbers [OF run sp na df sc sh dist l1] has s by simp
  moreover have "map_of (EditableTexts (w_pages W (snd (?dl ! 2)))) ''FC-SH'' = Some ''5 / 5''"
    using computeTechDraw_sheet_numbers [OF run sp na df sc sh dist l2] has s by simp
  moreover have "map_of (EditableTexts (w_pages V (snd (?dl ! 2)))) ''FC-SH'' = None"
    using computeTechDraw_sheet_numbers [OF runb sp na df sc sh dist l2] hasnt by simp
  ultimately show ?thesis using run runb has hasnt by simp
qed

subsection \<open>A file that cannot be opened\<close>




end
